theory Spec2Isabelle
  imports Complex_Main "HOL-Library.Multiset"
begin

section \<open>Numbers and helper operations\<close>

text \<open>
  The template parameter \<open>Number\<close> (\<open>double\<close>, or a SIMD array of doubles treated
  lane by lane) is modelled by \<^typ>\<open>real\<close>: the development verifies the arithmetic the
  code is written to perform, not its rounding.  A primitive state is the array
  \<open>[rho, u, p, gamma, a]\<close> that the source destructures with structured bindings.
\<close>

type_synonym primitive_type = "real \<times> real \<times> real \<times> real \<times> real"

text \<open>
  \<open>dealii::compare_and_apply_mask<cmp>(l, r, t, f)\<close> selects \<open>t\<close> in the lanes where
  \<open>l cmp r\<close> holds and \<open>f\<close> elsewhere.  Only its calls are part of the source; one lane is:
\<close>

datatype SIMDComparison = less_than | less_than_or_equal | greater_than_or_equal

fun compare_and_apply_mask :: "SIMDComparison \<Rightarrow> real \<Rightarrow> real \<Rightarrow> real \<Rightarrow> real \<Rightarrow> real" where
  "compare_and_apply_mask less_than l r t f = (if l < r then t else f)"
| "compare_and_apply_mask less_than_or_equal l r t f = (if l \<le> r then t else f)"
| "compare_and_apply_mask greater_than_or_equal l r t f = (if l \<ge> r then t else f)"

text \<open>
  Modelled from the spec: \<open>positive_part\<close> and \<open>negative_part\<close> (header \<open>simd.h\<close>, not
  part of the sources at hand) are the \<open>max(0, x)\<close> and \<open>max(0, -x)\<close> of the
  specification's formula for the final bound.
\<close>

definition positive_part :: "real \<Rightarrow> real" where
  "positive_part x = max 0 x"

definition negative_part :: "real \<Rightarrow> real" where
  "negative_part x = max 0 (- x)"

text \<open>
  Modelled from the spec: \<open>ryujin::vec_pow(x, b)\<close> (header \<open>simd.h\<close>, not part of the
  sources at hand) raises \<open>x\<close> to the real power \<open>b\<close>.
\<close>

definition vec_pow :: "real \<Rightarrow> real \<Rightarrow> real" where
  "vec_pow x b = x powr b"


section \<open>The approximate Riemann solver\<close>

text \<open>
  \<open>hyperbolic_system.b_interp()\<close> is a run-time constant of the surrounding object; it is
  the first argument of every function that reads it.
\<close>

definition alpha :: "real \<Rightarrow> real \<Rightarrow> real \<Rightarrow> real \<Rightarrow> real" where
  "alpha b_interp rho gamma a =
     (let numerator = 2 * a * (1 - b_interp * rho);
          denominator = gamma - 1
      in numerator / denominator)"

definition c :: "real \<Rightarrow> real" where
  "c gamma_Z =
     (let radicand = (3 * gamma_Z + 11) / (6 * (gamma_Z + 1));
          false_value = sqrt radicand;
          c_of_gamma = compare_and_apply_mask less_than_or_equal gamma_Z (5 / 3) 1 false_value;
          true_value = 0.5 * sqrt 2
      in compare_and_apply_mask greater_than_or_equal gamma_Z 3 true_value c_of_gamma)"

fun p_star_RS_aeos :: "real \<Rightarrow> primitive_type \<Rightarrow> primitive_type \<Rightarrow> real" where
  "p_star_RS_aeos b_interp (rho_i, u_i, p_i, gamma_i, a_i) (rho_j, u_j, p_j, gamma_j, a_j) =
     (let alpha_i = alpha b_interp rho_i gamma_i a_i;
          alpha_j = alpha b_interp rho_j gamma_j a_j;
          p_min = min p_i p_j;
          p_max = max p_i p_j;
          gamma_min = compare_and_apply_mask less_than p_i p_j gamma_i gamma_j;
          gamma_max = compare_and_apply_mask greater_than_or_equal p_i p_j gamma_i gamma_j;
          alpha_min = compare_and_apply_mask less_than p_i p_j alpha_i alpha_j;
          alpha_max = compare_and_apply_mask greater_than_or_equal p_i p_j alpha_i alpha_j;
          c_gamma_min = c gamma_min;
          exp_min = 2 * gamma_min / (gamma_min - 1);
          exp_max = (gamma_max - 1) / (2 * gamma_max);
          numerator = alpha_max * (1 - vec_pow (p_min / p_max) exp_max) - (u_j - u_i);
          denominator = c_gamma_min * alpha_min;
          base = numerator / denominator + 1
      in p_min * vec_pow base exp_min)"

fun p_star_SS_aeos :: "real \<Rightarrow> primitive_type \<Rightarrow> primitive_type \<Rightarrow> real" where
  "p_star_SS_aeos b_interp (rho_i, u_i, p_i, gamma_i, a_i) (rho_j, u_j, p_j, gamma_j, a_j) =
     (let gamma_m = min gamma_i gamma_j;
          alpha_hat_left = c gamma_i * alpha b_interp rho_i gamma_i a_i;
          alpha_hat_right = c gamma_j * alpha b_interp rho_j gamma_j a_j;
          exp = (gamma_m - 1) / (2 * gamma_m);
          exp_inv = 1 / exp;
          numerator = alpha_hat_left + alpha_hat_right - (u_j - u_i);
          denominator = alpha_hat_left * vec_pow p_i (- exp) + alpha_hat_right * vec_pow p_j (- exp);
          base = numerator / denominator
      in vec_pow base exp_inv)"

fun phi_of_p_max :: "real \<Rightarrow> primitive_type \<Rightarrow> primitive_type \<Rightarrow> real" where
  "phi_of_p_max b_interp (rho_i, u_i, p_i, gamma_i, a_i) (rho_j, u_j, p_j, gamma_j, a_j) =
     (let p_max = max p_i p_j;
          radicand_inverse_i =
            0.5 * rho_i / (1 - b_interp * rho_i) * ((gamma_i + 1) * p_max + (gamma_i - 1) * p_i);
          value_i = (p_max - p_i) / sqrt radicand_inverse_i;
          radicand_jnverse_j =
            0.5 * rho_j / (1 - b_interp * rho_j) * ((gamma_j + 1) * p_max + (gamma_j - 1) * p_j);
          value_j = (p_max - p_j) / sqrt radicand_jnverse_j
      in value_i + value_j + u_j - u_i)"

fun lambda1_minus :: "primitive_type \<Rightarrow> real \<Rightarrow> real" where
  "lambda1_minus (rho, u, p, gamma, a) p_star =
     (let factor = 0.5 * (gamma + 1) / gamma;
          tmp = positive_part ((p_star - p) / p)
      in u - a * sqrt (1 + factor * tmp))"

fun lambda3_plus :: "primitive_type \<Rightarrow> real \<Rightarrow> real" where
  "lambda3_plus (rho, u, p, gamma, a) p_star =
     (let factor = 0.5 * (gamma + 1) / gamma;
          tmp = positive_part ((p_star - p) / p)
      in u + a * sqrt (1 + factor * tmp))"

definition compute_lambda :: "primitive_type \<Rightarrow> primitive_type \<Rightarrow> real \<Rightarrow> real" where
  "compute_lambda riemann_data_i riemann_data_j p_star =
     (let nu_11 = lambda1_minus riemann_data_i p_star;
          nu_32 = lambda3_plus riemann_data_j p_star
      in max (positive_part nu_32) (negative_part nu_11))"

fun compute :: "real \<Rightarrow> primitive_type \<Rightarrow> primitive_type \<Rightarrow> real" where
  "compute b_interp (rho_i, u_i, p_i, gamma_i, a_i) (rho_j, u_j, p_j, gamma_j, a_j) =
     (let riemann_data_i = (rho_i, u_i, p_i, gamma_i, a_i);
          riemann_data_j = (rho_j, u_j, p_j, gamma_j, a_j);
          p_max = max p_i p_j;
          phi_p_max = phi_of_p_max b_interp riemann_data_i riemann_data_j;
          p_star_SS = p_star_SS_aeos b_interp riemann_data_i riemann_data_j;
          p_star_RS = p_star_RS_aeos b_interp riemann_data_i riemann_data_j;
          p_2 = compare_and_apply_mask less_than phi_p_max 0 p_star_SS (min p_max p_star_RS)
      in compute_lambda riemann_data_i riemann_data_j p_2)"

declare p_star_RS_aeos.simps [simp del] p_star_SS_aeos.simps [simp del]
  phi_of_p_max.simps [simp del] lambda1_minus.simps [simp del]
  lambda3_plus.simps [simp del] compute.simps [simp del]


section \<open>The Riemann solver with its partial operations made explicit\<close>

text \<open>
  The functions above use the total operations of the logic.  The code divides, takes
  square roots and raises to real powers; none of these is defined everywhere, and the code
  checks nothing.  The second embedding below performs the same operations in the same
  order and records the first one that is applied outside its domain.
\<close>

datatype error = DivisionByZero | SqrtOfNegative | PowDomain

type_synonym 'a checked = "error + 'a"

definition bind_chk :: "'a checked \<Rightarrow> ('a \<Rightarrow> 'b checked) \<Rightarrow> 'b checked" where
  "bind_chk r f = (case r of Inl e \<Rightarrow> Inl e | Inr v \<Rightarrow> f v)"

definition chk_div :: "real \<Rightarrow> real \<Rightarrow> real checked" where
  "chk_div x y = (if y = 0 then Inl DivisionByZero else Inr (x / y))"

definition chk_sqrt :: "real \<Rightarrow> real checked" where
  "chk_sqrt x = (if x < 0 then Inl SqrtOfNegative else Inr (sqrt x))"

text \<open>
  Modelled from the spec: a valid base of \<open>ryujin::vec_pow\<close> (header \<open>simd.h\<close>, not part
  of the sources at hand) is a positive number, or zero under a positive exponent.
\<close>

definition chk_pow :: "real \<Rightarrow> real \<Rightarrow> real checked" where
  "chk_pow x b = (if x < 0 \<or> (x = 0 \<and> b \<le> 0) then Inl PowDomain else Inr (vec_pow x b))"

definition alpha_chk :: "real \<Rightarrow> real \<Rightarrow> real \<Rightarrow> real \<Rightarrow> real checked" where
  "alpha_chk b_interp rho gamma a =
     (let numerator = 2 * a * (1 - b_interp * rho);
          denominator = gamma - 1
      in chk_div numerator denominator)"

definition c_chk :: "real \<Rightarrow> real checked" where
  "c_chk gamma_Z =
     bind_chk (chk_div (3 * gamma_Z + 11) (6 * (gamma_Z + 1))) (\<lambda>radicand.
     bind_chk (chk_sqrt radicand) (\<lambda>false_value.
     let c_of_gamma = compare_and_apply_mask less_than_or_equal gamma_Z (5 / 3) 1 false_value;
         true_value = 0.5 * sqrt 2
     in Inr (compare_and_apply_mask greater_than_or_equal gamma_Z 3 true_value c_of_gamma)))"

fun p_star_RS_aeos_chk :: "real \<Rightarrow> primitive_type \<Rightarrow> primitive_type \<Rightarrow> real checked" where
  "p_star_RS_aeos_chk b_interp (rho_i, u_i, p_i, gamma_i, a_i) (rho_j, u_j, p_j, gamma_j, a_j) =
     bind_chk (alpha_chk b_interp rho_i gamma_i a_i) (\<lambda>alpha_i.
     bind_chk (alpha_chk b_interp rho_j gamma_j a_j) (\<lambda>alpha_j.
     let p_min = min p_i p_j;
         p_max = max p_i p_j;
         gamma_min = compare_and_apply_mask less_than p_i p_j gamma_i gamma_j;
         gamma_max = compare_and_apply_mask greater_than_or_equal p_i p_j gamma_i gamma_j;
         alpha_min = compare_and_apply_mask less_than p_i p_j alpha_i alpha_j;
         alpha_max = compare_and_apply_mask greater_than_or_equal p_i p_j alpha_i alpha_j
     in
     bind_chk (c_chk gamma_min) (\<lambda>c_gamma_min.
     bind_chk (chk_div (2 * gamma_min) (gamma_min - 1)) (\<lambda>exp_min.
     bind_chk (chk_div (gamma_max - 1) (2 * gamma_max)) (\<lambda>exp_max.
     bind_chk (chk_div p_min p_max) (\<lambda>ratio.
     bind_chk (chk_pow ratio exp_max) (\<lambda>power_max.
     let numerator = alpha_max * (1 - power_max) - (u_j - u_i);
         denominator = c_gamma_min * alpha_min
     in
     bind_chk (chk_div numerator denominator) (\<lambda>quotient.
     let base = quotient + 1
     in
     bind_chk (chk_pow base exp_min) (\<lambda>power_min.
     Inr (p_min * power_min))))))))))"

fun p_star_SS_aeos_chk :: "real \<Rightarrow> primitive_type \<Rightarrow> primitive_type \<Rightarrow> real checked" where
  "p_star_SS_aeos_chk b_interp (rho_i, u_i, p_i, gamma_i, a_i) (rho_j, u_j, p_j, gamma_j, a_j) =
     (let gamma_m = min gamma_i gamma_j
      in
      bind_chk (c_chk gamma_i) (\<lambda>c_i.
      bind_chk (alpha_chk b_interp rho_i gamma_i a_i) (\<lambda>alpha_i.
      bind_chk (c_chk gamma_j) (\<lambda>c_j.
      bind_chk (alpha_chk b_interp rho_j gamma_j a_j) (\<lambda>alpha_j.
      let alpha_hat_left = c_i * alpha_i;
          alpha_hat_right = c_j * alpha_j
      in
      bind_chk (chk_div (gamma_m - 1) (2 * gamma_m)) (\<lambda>exp.
      bind_chk (chk_div 1 exp) (\<lambda>exp_inv.
      let numerator = alpha_hat_left + alpha_hat_right - (u_j - u_i)
      in
      bind_chk (chk_pow p_i (- exp)) (\<lambda>power_i.
      bind_chk (chk_pow p_j (- exp)) (\<lambda>power_j.
      let denominator = alpha_hat_left * power_i + alpha_hat_right * power_j
      in
      bind_chk (chk_div numerator denominator) (\<lambda>base.
      chk_pow base exp_inv))))))))))"

fun phi_of_p_max_chk :: "real \<Rightarrow> primitive_type \<Rightarrow> primitive_type \<Rightarrow> real checked" where
  "phi_of_p_max_chk b_interp (rho_i, u_i, p_i, gamma_i, a_i) (rho_j, u_j, p_j, gamma_j, a_j) =
     (let p_max = max p_i p_j
      in
      bind_chk (chk_div (0.5 * rho_i) (1 - b_interp * rho_i)) (\<lambda>quotient_i.
      let radicand_inverse_i = quotient_i * ((gamma_i + 1) * p_max + (gamma_i - 1) * p_i)
      in
      bind_chk (chk_sqrt radicand_inverse_i) (\<lambda>root_i.
      bind_chk (chk_div (p_max - p_i) root_i) (\<lambda>value_i.
      bind_chk (chk_div (0.5 * rho_j) (1 - b_interp * rho_j)) (\<lambda>quotient_j.
      let radicand_jnverse_j = quotient_j * ((gamma_j + 1) * p_max + (gamma_j - 1) * p_j)
      in
      bind_chk (chk_sqrt radicand_jnverse_j) (\<lambda>root_j.
      bind_chk (chk_div (p_max - p_j) root_j) (\<lambda>value_j.
      Inr (value_i + value_j + u_j - u_i))))))))"

fun lambda1_minus_chk :: "primitive_type \<Rightarrow> real \<Rightarrow> real checked" where
  "lambda1_minus_chk (rho, u, p, gamma, a) p_star =
     bind_chk (chk_div (0.5 * (gamma + 1)) gamma) (\<lambda>factor.
     bind_chk (chk_div (p_star - p) p) (\<lambda>quotient.
     let tmp = positive_part quotient
     in
     bind_chk (chk_sqrt (1 + factor * tmp)) (\<lambda>root.
     Inr (u - a * root))))"

fun lambda3_plus_chk :: "primitive_type \<Rightarrow> real \<Rightarrow> real checked" where
  "lambda3_plus_chk (rho, u, p, gamma, a) p_star =
     bind_chk (chk_div (0.5 * (gamma + 1)) gamma) (\<lambda>factor.
     bind_chk (chk_div (p_star - p) p) (\<lambda>quotient.
     let tmp = positive_part quotient
     in
     bind_chk (chk_sqrt (1 + factor * tmp)) (\<lambda>root.
     Inr (u + a * root))))"

definition compute_lambda_chk :: "primitive_type \<Rightarrow> primitive_type \<Rightarrow> real \<Rightarrow> real checked" where
  "compute_lambda_chk riemann_data_i riemann_data_j p_star =
     bind_chk (lambda1_minus_chk riemann_data_i p_star) (\<lambda>nu_11.
     bind_chk (lambda3_plus_chk riemann_data_j p_star) (\<lambda>nu_32.
     Inr (max (positive_part nu_32) (negative_part nu_11))))"

fun compute_chk :: "real \<Rightarrow> primitive_type \<Rightarrow> primitive_type \<Rightarrow> real checked" where
  "compute_chk b_interp (rho_i, u_i, p_i, gamma_i, a_i) (rho_j, u_j, p_j, gamma_j, a_j) =
     (let riemann_data_i = (rho_i, u_i, p_i, gamma_i, a_i);
          riemann_data_j = (rho_j, u_j, p_j, gamma_j, a_j);
          p_max = max p_i p_j
      in
      bind_chk (phi_of_p_max_chk b_interp riemann_data_i riemann_data_j) (\<lambda>phi_p_max.
      bind_chk (p_star_SS_aeos_chk b_interp riemann_data_i riemann_data_j) (\<lambda>p_star_SS.
      bind_chk (p_star_RS_aeos_chk b_interp riemann_data_i riemann_data_j) (\<lambda>p_star_RS.
      let p_2 = compare_and_apply_mask less_than phi_p_max 0 p_star_SS (min p_max p_star_RS)
      in compute_lambda_chk riemann_data_i riemann_data_j p_2))))"

declare p_star_RS_aeos_chk.simps [simp del] p_star_SS_aeos_chk.simps [simp del]
  phi_of_p_max_chk.simps [simp del] lambda1_minus_chk.simps [simp del]
  lambda3_plus_chk.simps [simp del] compute_chk.simps [simp del]

text \<open>
  The largest velocity gap \<open>u_j - u_i\<close> for which the base of the outer power is not
  negative, in \<open>p_star_SS_aeos\<close> and in \<open>p_star_RS_aeos\<close>.
\<close>

fun gap_limit_SS :: "real \<Rightarrow> primitive_type \<Rightarrow> primitive_type \<Rightarrow> real" where
  "gap_limit_SS b_interp (rho_i, u_i, p_i, gamma_i, a_i) (rho_j, u_j, p_j, gamma_j, a_j) =
     c gamma_i * alpha b_interp rho_i gamma_i a_i + c gamma_j * alpha b_interp rho_j gamma_j a_j"

fun gap_limit_RS :: "real \<Rightarrow> primitive_type \<Rightarrow> primitive_type \<Rightarrow> real" where
  "gap_limit_RS b_interp (rho_i, u_i, p_i, gamma_i, a_i) (rho_j, u_j, p_j, gamma_j, a_j) =
     (let alpha_i = alpha b_interp rho_i gamma_i a_i;
          alpha_j = alpha b_interp rho_j gamma_j a_j;
          p_min = min p_i p_j;
          p_max = max p_i p_j;
          gamma_min = compare_and_apply_mask less_than p_i p_j gamma_i gamma_j;
          gamma_max = compare_and_apply_mask greater_than_or_equal p_i p_j gamma_i gamma_j;
          alpha_min = compare_and_apply_mask less_than p_i p_j alpha_i alpha_j;
          alpha_max = compare_and_apply_mask greater_than_or_equal p_i p_j alpha_i alpha_j;
          exp_max = (gamma_max - 1) / (2 * gamma_max)
      in alpha_max * (1 - vec_pow (p_min / p_max) exp_max) + c gamma_min * alpha_min)"

declare gap_limit_SS.simps [simp del] gap_limit_RS.simps [simp del]

text \<open>The documented precondition domain of one primitive state, with \<open>gamma \<ge> 1\<close>.\<close>

fun documented_state :: "primitive_type \<Rightarrow> bool" where
  "documented_state (rho, u, p, gamma, a) = (0 < rho \<and> 0 < p \<and> 0 < a \<and> 1 \<le> gamma)"

text \<open>The states on which every operation of the solver is defined.\<close>

fun admissible_state :: "real \<Rightarrow> primitive_type \<Rightarrow> bool" where
  "admissible_state b_interp (rho, u, p, gamma, a) =
     (0 < rho \<and> 0 < p \<and> 0 < a \<and> 1 < gamma \<and> b_interp * rho < 1)"


section \<open>Equations of state\<close>

text \<open>
  The classes \<open>PolytropicGas\<close> and \<open>NobleAbleStiffenedGas\<close> override the two virtual
  functions of \<open>EquationOfState\<close>; the variant carries the private members
  (\<open>gamma_\<close>, and \<open>gamma_\<close>, \<open>b_\<close>, \<open>q_\<close>, \<open>pinf_\<close>) and the virtual call is a case
  distinction.
\<close>

datatype EquationOfState =
    PolytropicGas real
  | NobleAbleStiffenedGas real real real real

fun pressure_oracle :: "EquationOfState \<Rightarrow> real \<Rightarrow> real \<Rightarrow> real" where
  "pressure_oracle (PolytropicGas gamma) rho internal_energy =
     (gamma - 1) * internal_energy"
| "pressure_oracle (NobleAbleStiffenedGas gamma b q pinf) rho internal_energy =
     (let cov = 1 - b * rho;
          num = internal_energy - q * rho;
          den = cov
      in (gamma - 1) * num / den - gamma * pinf)"

fun sie_from_rho_p :: "EquationOfState \<Rightarrow> real \<Rightarrow> real \<Rightarrow> real" where
  "sie_from_rho_p (PolytropicGas gamma) rho pressure =
     (let denom = rho * (gamma - 1)
      in pressure / denom)"
| "sie_from_rho_p (NobleAbleStiffenedGas gamma b q pinf) rho pressure =
     (let cov = 1 - b * rho;
          num = pressure + gamma * pinf;
          den = gamma - 1
      in num / den * rho * cov + q)"

text \<open>The constructors' default parameter values.\<close>

definition PolytropicGas_default :: EquationOfState where
  "PolytropicGas_default = PolytropicGas (7 / 5)"

definition NobleAbleStiffenedGas_default :: EquationOfState where
  "NobleAbleStiffenedGas_default = NobleAbleStiffenedGas (7 / 5) 0 0 0"


section \<open>The time integrator\<close>

datatype CFLRecoveryStrategy = none | bang_bang_control

datatype TimeSteppingScheme = ssprk_33 | erk_33 | erk_43

text \<open>
  Modelled from the spec: the stepping routines \<open>step_ssprk_33\<close>, \<open>step_erk_33\<close> and
  \<open>step_erk_43\<close> are declared in \<open>time_integrator.h\<close>, their bodies are not part of the
  sources at hand.  The final weights are those of the specification's tableaux, which are
  also the last rows of the Butcher tableaux in the documentation of the enumerators.
\<close>

fun final_weights :: "TimeSteppingScheme \<Rightarrow> rat list" where
  "final_weights ssprk_33 = [1 / 6, 1 / 6, 2 / 3]"
| "final_weights erk_33 = [1 / 4, 0, 3 / 4]"
| "final_weights erk_43 = [0, 2 / 3, - (1 / 3), 2 / 3]"

text \<open>
  Modelled from the spec: the body of \<open>TimeIntegrator::step\<close> is not part of the sources
  at hand (only its declaration is).  The immutable configuration is the record below.  One
  attempt of a whole multi-stage step, that is one call of the stepping routine that the
  scheme selects, run from a state vector with a trial CFL number, yields the new state
  vector, the step size and the invariant-domain violation flag.
\<close>

record StepContext =
  cfl_min :: real
  cfl_max :: real
  cfl_recovery_strategy :: CFLRecoveryStrategy
  time_stepping_scheme :: TimeSteppingScheme

record 'u attempt =
  U_out :: 'u
  tau_actual :: real
  violated :: bool

type_synonym 'u stepping_routine = "real \<Rightarrow> 'u \<Rightarrow> 'u attempt"

record 'u routines =
  step_ssprk_33 :: "'u stepping_routine"
  step_erk_33 :: "'u stepping_routine"
  step_erk_43 :: "'u stepping_routine"

text \<open>Dispatch: \<open>step\<close> delegates to one of the three fixed-tableau routines.\<close>

fun dispatch :: "TimeSteppingScheme \<Rightarrow> 'u routines \<Rightarrow> 'u stepping_routine" where
  "dispatch ssprk_33 R = step_ssprk_33 R"
| "dispatch erk_33 R = step_erk_33 R"
| "dispatch erk_43 R = step_erk_43 R"

text \<open>
  What a call of \<open>step\<close> leaves behind: the state vector now in \<open>U\<close>, the step size
  returned, the violation flag the caller can observe, whether the non-fatal warning was
  emitted, and the log of the attempts made, each with its trial CFL number and the state
  vector it started from.
\<close>

record 'u step_result =
  U_new :: 'u
  tau :: real
  violation :: bool
  warning :: bool
  attempts :: "(real \<times> 'u) list"

text \<open>
  Modelled from the spec: the recovery protocol.  The step is tried with \<open>cfl_max\<close>.  On a
  violation, strategy \<open>none\<close> accepts the result as it is; strategy \<open>bang_bang_control\<close>
  discards it, restarts the whole step from the original \<open>U\<close> with \<open>cfl_min\<close> and accepts
  that result, with a warning when it violates the invariant domain as well.
\<close>

definition step :: "StepContext \<Rightarrow> 'u routines \<Rightarrow> 'u \<Rightarrow> 'u step_result" where
  "step ctx R U =
     (let single_step = dispatch (time_stepping_scheme ctx) R;
          first = single_step (cfl_max ctx) U
      in if \<not> violated first then
           \<lparr>U_new = U_out first, tau = tau_actual first, violation = False, warning = False,
            attempts = [(cfl_max ctx, U)]\<rparr>
         else
           (case cfl_recovery_strategy ctx of
              none \<Rightarrow>
                \<lparr>U_new = U_out first, tau = tau_actual first, violation = True, warning = False,
                 attempts = [(cfl_max ctx, U)]\<rparr>
            | bang_bang_control \<Rightarrow>
                (let second = single_step (cfl_min ctx) U
                 in \<lparr>U_new = U_out second, tau = tau_actual second,
                     violation = violated second, warning = violated second,
                     attempts = [(cfl_max ctx, U), (cfl_min ctx, U)]\<rparr>)))"


section \<open>The extremum reduction of the postprocessor\<close>

text \<open>
  The accumulators of \<open>Postprocessor::compute\<close> start at \<open>0\<close> (upper bounds) and at
  \<open>std::numeric_limits<Number>::infinity()\<close> (lower bounds), so a number is here a real or
  plus infinity, ordered as the floating-point comparison orders them.
\<close>

datatype ext_number = Finite real | Infinity

instantiation ext_number :: linorder
begin

fun less_eq_ext_number :: "ext_number \<Rightarrow> ext_number \<Rightarrow> bool" where
  "less_eq_ext_number (Finite x) (Finite y) = (x \<le> y)"
| "less_eq_ext_number Infinity (Finite y) = False"
| "less_eq_ext_number x Infinity = True"

definition less_ext_number :: "ext_number \<Rightarrow> ext_number \<Rightarrow> bool" where
  "less_ext_number x y = (x \<le> y \<and> \<not> y \<le> x)"

instance
proof
  fix x y z :: ext_number
  show "(x < y) = (x \<le> y \<and> \<not> y \<le> x)"
    by (simp add: less_ext_number_def)
  show "x \<le> x"
    by (cases x) simp_all
  show "x \<le> y \<Longrightarrow> y \<le> z \<Longrightarrow> x \<le> z"
    by (cases x; cases y; cases z) simp_all
  show "x \<le> y \<Longrightarrow> y \<le> x \<Longrightarrow> x = y"
    by (cases x; cases y) simp_all
  show "x \<le> y \<or> y \<le> x"
    by (cases x; cases y) auto
qed

end

text \<open>
  The same code is written four times, for \<open>r_i_max\<close>, \<open>r_i_min\<close>, \<open>v_i_max\<close> and
  \<open>v_i_min\<close>.  \<open>Upper\<close> stands for the two maxima (\<open>std::max\<close>, loop test
  \<open>temp < x\<close>, \<open>Utilities::MPI::max\<close>), \<open>Lower\<close> for the two minima.
\<close>

datatype bound = Upper | Lower

fun combine :: "bound \<Rightarrow> 'a::linorder \<Rightarrow> 'a \<Rightarrow> 'a" where
  "combine Upper x y = max x y"
| "combine Lower x y = min x y"

fun improves :: "bound \<Rightarrow> 'a::linorder \<Rightarrow> 'a \<Rightarrow> bool" where
  "improves Upper temp x = (temp < x)"
| "improves Lower temp x = (temp > x)"

fun initial :: "bound \<Rightarrow> ext_number" where
  "initial Upper = Finite 0"
| "initial Lower = Infinity"

text \<open>
  The loop of one thread over its share of the locally owned nodes.  A node is given by the
  length of its row and the quantity computed for it; constrained nodes (row length one)
  are skipped.
\<close>

fun on_subrange :: "bound \<Rightarrow> 'a::linorder \<Rightarrow> (nat \<times> 'a) list \<Rightarrow> 'a" where
  "on_subrange d acc [] = acc"
| "on_subrange d acc ((row_length, quantity) # nodes) =
     (if row_length = 1 then on_subrange d acc nodes
      else on_subrange d (combine d acc quantity) nodes)"

fun node_values :: "(nat \<times> 'a) list \<Rightarrow> 'a list" where
  "node_values [] = []"
| "node_values ((row_length, quantity) # nodes) =
     (if row_length = 1 then node_values nodes else quantity # node_values nodes)"

text \<open>
  Synchronisation over the threads:
  \<^verbatim>\<open>Number temp = r.load(); while (temp < x && !r.compare_exchange_weak(temp, x));\<close>
  A thread is about to load, or in the loop with its current \<open>temp\<close>, or done; \<open>x\<close> is its
  value on its subrange.  One atomic action of a thread reads and possibly replaces the
  shared accumulator.  \<open>compare_exchange_weak\<close> succeeds only if the accumulator still holds
  \<open>temp\<close>, may fail spuriously even then, and on failure stores the value found in \<open>temp\<close>.
\<close>

datatype 'a worker = AtLoad 'a | AtLoop 'a 'a | Finished 'a

fun worker_step :: "bound \<Rightarrow> bool \<Rightarrow> 'a::linorder \<Rightarrow> 'a worker \<Rightarrow> 'a \<times> 'a worker" where
  "worker_step d spurious s (AtLoad x) = (s, AtLoop s x)"
| "worker_step d spurious s (AtLoop temp x) =
     (if improves d temp x then
        (if s = temp \<and> \<not> spurious then (x, Finished x) else (s, AtLoop s x))
      else (s, Finished x))"
| "worker_step d spurious s (Finished x) = (s, Finished x)"

record 'a region =
  shared :: 'a
  workers :: "'a worker list"

text \<open>
  A schedule lists which thread acts next and whether a \<open>compare_exchange_weak\<close> it then
  executes fails spuriously; every interleaving of the threads is some schedule.
\<close>

type_synonym schedule = "(nat \<times> bool) list"

fun sched_step :: "bound \<Rightarrow> nat \<times> bool \<Rightarrow> 'a::linorder region \<Rightarrow> 'a region" where
  "sched_step d (k, spurious) cfg =
     (if k < length (workers cfg) then
        (case worker_step d spurious (shared cfg) (workers cfg ! k) of
           (s, w) \<Rightarrow> \<lparr>shared = s, workers = (workers cfg)[k := w]\<rparr>)
      else cfg)"

fun run :: "bound \<Rightarrow> schedule \<Rightarrow> 'a::linorder region \<Rightarrow> 'a region" where
  "run d [] cfg = cfg"
| "run d (e # es) cfg = run d es (sched_step d e cfg)"

definition parallel_region ::
  "bound \<Rightarrow> 'a::linorder \<Rightarrow> (nat \<times> 'a) list list \<Rightarrow> schedule \<Rightarrow> 'a region" where
  "parallel_region d init subranges sched =
     run d sched \<lparr>shared = init, workers = map (\<lambda>nodes. AtLoad (on_subrange d init nodes)) subranges\<rparr>"

fun is_finished :: "'a worker \<Rightarrow> bool" where
  "is_finished (Finished x) = True"
| "is_finished (AtLoop temp x) = False"
| "is_finished (AtLoad x) = False"

definition all_finished :: "'a region \<Rightarrow> bool" where
  "all_finished cfg = list_all is_finished (workers cfg)"

text \<open>
  The schedule in which the threads \<open>k\<close>, \<open>k + 1\<close>, ... act one after the other, each
  loading and then passing once through its loop without interruption.
\<close>

fun sequential_schedule :: "nat \<Rightarrow> nat \<Rightarrow> schedule" where
  "sequential_schedule k 0 = []"
| "sequential_schedule k (Suc n) = (k, False) # (k, False) # sequential_schedule (Suc k) n"

text \<open>
  Synchronisation over the processes: \<open>Utilities::MPI::max\<close> and \<open>Utilities::MPI::min\<close>
  return the maximum and the minimum of the values of all ranks; there is at least one rank.
\<close>

fun mpi_reduce :: "bound \<Rightarrow> 'a::linorder list \<Rightarrow> 'a option" where
  "mpi_reduce d [] = None"
| "mpi_reduce d (x # xs) = Some (foldl (combine d) x xs)"

text \<open>
  A process is given by the subranges of its threads and the schedule of its parallel
  region; the global value is the collective over what the processes hold afterwards.
\<close>

type_synonym 'a process = "(nat \<times> 'a) list list \<times> schedule"

definition global_reduce :: "bound \<Rightarrow> 'a::linorder \<Rightarrow> 'a process list \<Rightarrow> 'a option" where
  "global_reduce d init procs =
     mpi_reduce d (map (\<lambda>(subranges, sched). shared (parallel_region d init subranges sched)) procs)"

definition all_node_values :: "'a process list \<Rightarrow> 'a list" where
  "all_node_values procs = concat (map (\<lambda>(subranges, sched). concat (map node_values subranges)) procs)"

definition all_regions_finished :: "bound \<Rightarrow> 'a::linorder \<Rightarrow> 'a process list \<Rightarrow> bool" where
  "all_regions_finished d init procs =
     list_all (\<lambda>(subranges, sched). all_finished (parallel_region d init subranges sched)) procs"

text \<open>The order in the direction of improvement, and the best element of a list.\<close>

fun dle :: "bound \<Rightarrow> 'a::linorder \<Rightarrow> 'a \<Rightarrow> bool" where
  "dle Upper x y = (x \<le> y)"
| "dle Lower x y = (y \<le> x)"

definition best :: "bound \<Rightarrow> 'a::linorder \<Rightarrow> 'a list \<Rightarrow> bool" where
  "best d m xs = (m \<in> set xs \<and> (\<forall>y \<in> set xs. dle d y m))"

fun extremum :: "bound \<Rightarrow> 'a::linorder set \<Rightarrow> 'a" where
  "extremum Upper A = Max A"
| "extremum Lower A = Min A"

fun local_of :: "'a worker \<Rightarrow> 'a" where
  "local_of (AtLoad x) = x"
| "local_of (AtLoop temp x) = x"
| "local_of (Finished x) = x"

fun worker_ok :: "bound \<Rightarrow> 'a::linorder \<Rightarrow> 'a worker \<Rightarrow> bool" where
  "worker_ok d s (AtLoad x) = True"
| "worker_ok d s (AtLoop temp x) = dle d temp s"
| "worker_ok d s (Finished x) = dle d x s"

definition region_inv :: "bound \<Rightarrow> 'a::linorder \<Rightarrow> 'a region \<Rightarrow> bool" where
  "region_inv d init cfg =
     (shared cfg \<in> set (init # map local_of (workers cfg)) \<and>
      dle d init (shared cfg) \<and>
      (\<forall>w \<in> set (workers cfg). worker_ok d (shared cfg) w))"


section \<open>Properties of the Riemann solver\<close>

lemma compute_lambda_nonneg: "0 \<le> compute_lambda si sj p_star"
  by (simp add: compute_lambda_def positive_part_def Let_def le_max_iff_disj)

lemma compute_nonneg: "0 \<le> compute b si sj"
  by (cases si; cases sj) (simp add: compute.simps Let_def compute_lambda_nonneg)

text \<open>
  Claim C2.  \<open>compute\<close> is \<open>compute_lambda\<close> at the star pressure \<open>p_2\<close>, which is
  \<open>p_star_SS\<close> when \<open>phi_of_p_max\<close> is negative and \<open>min(max(p_i, p_j), p_star_RS)\<close>
  otherwise; \<open>compute_lambda\<close> is the larger of the non-negative parts of
  \<open>lambda3_plus\<close> at the state \<open>j\<close> and of \<open>- lambda1_minus\<close> at the state \<open>i\<close>; the two
  characteristic speeds are \<open>u - a * r\<close> and \<open>u + a * r\<close> with
  \<open>r = sqrt (1 + ((gamma + 1) / (2 * gamma)) * max(0, (p_star - p) / p))\<close>; and the value
  returned is never negative.
\<close>

theorem compute_is_lambda_at_p_2:
  "compute b (rho_i, u_i, p_i, gamma_i, a_i) (rho_j, u_j, p_j, gamma_j, a_j) =
     compute_lambda (rho_i, u_i, p_i, gamma_i, a_i) (rho_j, u_j, p_j, gamma_j, a_j)
       (if phi_of_p_max b (rho_i, u_i, p_i, gamma_i, a_i) (rho_j, u_j, p_j, gamma_j, a_j) < 0
        then p_star_SS_aeos b (rho_i, u_i, p_i, gamma_i, a_i) (rho_j, u_j, p_j, gamma_j, a_j)
        else min (max p_i p_j)
               (p_star_RS_aeos b (rho_i, u_i, p_i, gamma_i, a_i) (rho_j, u_j, p_j, gamma_j, a_j)))
   \<and> compute_lambda si sj p_star =
       max (max 0 (lambda3_plus sj p_star)) (max 0 (- lambda1_minus si p_star))
   \<and> lambda1_minus (rho, u, p, gamma, a) p_star =
       u - a * sqrt (1 + ((gamma + 1) / (2 * gamma)) * max 0 ((p_star - p) / p))
   \<and> lambda3_plus (rho, u, p, gamma, a) p_star =
       u + a * sqrt (1 + ((gamma + 1) / (2 * gamma)) * max 0 ((p_star - p) / p))
   \<and> 0 \<le> compute b (rho_i, u_i, p_i, gamma_i, a_i) (rho_j, u_j, p_j, gamma_j, a_j)"
proof (intro conjI)
  show "compute b (rho_i, u_i, p_i, gamma_i, a_i) (rho_j, u_j, p_j, gamma_j, a_j) =
     compute_lambda (rho_i, u_i, p_i, gamma_i, a_i) (rho_j, u_j, p_j, gamma_j, a_j)
       (if phi_of_p_max b (rho_i, u_i, p_i, gamma_i, a_i) (rho_j, u_j, p_j, gamma_j, a_j) < 0
        then p_star_SS_aeos b (rho_i, u_i, p_i, gamma_i, a_i) (rho_j, u_j, p_j, gamma_j, a_j)
        else min (max p_i p_j)
               (p_star_RS_aeos b (rho_i, u_i, p_i, gamma_i, a_i) (rho_j, u_j, p_j, gamma_j, a_j)))"
    by (simp add: compute.simps Let_def)
  show "compute_lambda si sj p_star =
       max (max 0 (lambda3_plus sj p_star)) (max 0 (- lambda1_minus si p_star))"
    by (simp add: compute_lambda_def positive_part_def negative_part_def Let_def)
  show "lambda1_minus (rho, u, p, gamma, a) p_star =
       u - a * sqrt (1 + ((gamma + 1) / (2 * gamma)) * max 0 ((p_star - p) / p))"
    by (simp add: lambda1_minus.simps positive_part_def Let_def)
  show "lambda3_plus (rho, u, p, gamma, a) p_star =
       u + a * sqrt (1 + ((gamma + 1) / (2 * gamma)) * max 0 ((p_star - p) / p))"
    by (simp add: lambda3_plus.simps positive_part_def Let_def)
  show "0 \<le> compute b (rho_i, u_i, p_i, gamma_i, a_i) (rho_j, u_j, p_j, gamma_j, a_j)"
    by (rule compute_nonneg)
qed

lemma lambda_mirror:
  "lambda3_plus (rho, - u, p, gamma, a) p_star = - lambda1_minus (rho, u, p, gamma, a) p_star"
  by (simp add: lambda1_minus.simps lambda3_plus.simps Let_def)

lemma lambda_mirror':
  "lambda1_minus (rho, - u, p, gamma, a) p_star = - lambda3_plus (rho, u, p, gamma, a) p_star"
  by (simp add: lambda1_minus.simps lambda3_plus.simps Let_def)

lemma compute_lambda_mirror:
  "compute_lambda (rho_j, - u_j, p_j, gamma_j, a_j) (rho_i, - u_i, p_i, gamma_i, a_i) p_star =
   compute_lambda (rho_i, u_i, p_i, gamma_i, a_i) (rho_j, u_j, p_j, gamma_j, a_j) p_star"
  by (simp add: compute_lambda_def lambda_mirror lambda_mirror' Let_def
      positive_part_def negative_part_def max.commute)

lemma phi_of_p_max_mirror:
  "phi_of_p_max b (rho_j, - u_j, p_j, gamma_j, a_j) (rho_i, - u_i, p_i, gamma_i, a_i) =
   phi_of_p_max b (rho_i, u_i, p_i, gamma_i, a_i) (rho_j, u_j, p_j, gamma_j, a_j)"
  by (simp add: phi_of_p_max.simps Let_def max.commute)

lemma p_star_SS_aeos_mirror:
  "p_star_SS_aeos b (rho_j, - u_j, p_j, gamma_j, a_j) (rho_i, - u_i, p_i, gamma_i, a_i) =
   p_star_SS_aeos b (rho_i, u_i, p_i, gamma_i, a_i) (rho_j, u_j, p_j, gamma_j, a_j)"
  by (simp add: p_star_SS_aeos.simps Let_def min.commute add.commute)

lemma p_star_RS_aeos_mirror:
  "p_i \<noteq> p_j \<Longrightarrow>
   p_star_RS_aeos b (rho_j, - u_j, p_j, gamma_j, a_j) (rho_i, - u_i, p_i, gamma_i, a_i) =
   p_star_RS_aeos b (rho_i, u_i, p_i, gamma_i, a_i) (rho_j, u_j, p_j, gamma_j, a_j)"
  by (cases "p_i < p_j") (simp_all add: p_star_RS_aeos.simps Let_def min.commute max.commute)


lemma compute_lambda_rarefaction:
  assumes "0 < p_i" "0 < p_j" "p_star \<le> p_i" "p_star \<le> p_j"
  shows "compute_lambda (rho_i, u_i, p_i, gamma_i, a_i) (rho_j, u_j, p_j, gamma_j, a_j) p_star =
         max (positive_part (u_j + a_j)) (negative_part (u_i - a_i))"
proof -
  have "(p_star - p_i) / p_i \<le> 0" "(p_star - p_j) / p_j \<le> 0"
    using assms by (simp_all add: divide_le_0_iff)
  then have "positive_part ((p_star - p_i) / p_i) = 0" "positive_part ((p_star - p_j) / p_j) = 0"
    by (simp_all add: positive_part_def)
  then show ?thesis
    by (simp add: compute_lambda_def lambda1_minus.simps lambda3_plus.simps Let_def)
qed

text \<open>
  Claim C6 (mirror symmetry).  For two primitive states with positive pressures, swapping
  the two states and flipping the sign of both velocities leaves the value of \<open>compute\<close>
  unchanged.
\<close>

theorem compute_mirror_symmetry:
  assumes "0 < p_i" and "0 < p_j"
  shows "compute b (rho_i, u_i, p_i, gamma_i, a_i) (rho_j, u_j, p_j, gamma_j, a_j) =
         compute b (rho_j, - u_j, p_j, gamma_j, a_j) (rho_i, - u_i, p_i, gamma_i, a_i)"
proof (cases "p_i = p_j")
  case False
  then show ?thesis
    by (simp add: compute.simps Let_def phi_of_p_max_mirror p_star_SS_aeos_mirror
        p_star_RS_aeos_mirror compute_lambda_mirror max.commute)
next
  case True
  show ?thesis
  proof (cases "phi_of_p_max b (rho_i, u_i, p_i, gamma_i, a_i) (rho_j, u_j, p_j, gamma_j, a_j) < 0")
    case True
    then show ?thesis
      by (simp add: compute.simps Let_def phi_of_p_max_mirror p_star_SS_aeos_mirror
          compute_lambda_mirror)
  next
    case False
    define q where "q = min (max p_i p_j)
      (p_star_RS_aeos b (rho_i, u_i, p_i, gamma_i, a_i) (rho_j, u_j, p_j, gamma_j, a_j))"
    define q' where "q' = min (max p_j p_i)
      (p_star_RS_aeos b (rho_j, - u_j, p_j, gamma_j, a_j) (rho_i, - u_i, p_i, gamma_i, a_i))"
    have q: "q \<le> p_i" "q \<le> p_j" and q': "q' \<le> p_i" "q' \<le> p_j"
      using \<open>p_i = p_j\<close> by (simp_all add: q_def q'_def)
    have "compute b (rho_i, u_i, p_i, gamma_i, a_i) (rho_j, u_j, p_j, gamma_j, a_j) =
          compute_lambda (rho_i, u_i, p_i, gamma_i, a_i) (rho_j, u_j, p_j, gamma_j, a_j) q"
      using False by (simp add: compute.simps Let_def q_def)
    also have "\<dots> = compute_lambda (rho_i, u_i, p_i, gamma_i, a_i) (rho_j, u_j, p_j, gamma_j, a_j) q'"
      using assms q q' by (simp add: compute_lambda_rarefaction)
    also have "\<dots> = compute_lambda (rho_j, - u_j, p_j, gamma_j, a_j) (rho_i, - u_i, p_i, gamma_i, a_i) q'"
      by (simp add: compute_lambda_mirror)
    also have "\<dots> = compute b (rho_j, - u_j, p_j, gamma_j, a_j) (rho_i, - u_i, p_i, gamma_i, a_i)"
      using False by (simp add: compute.simps Let_def q'_def phi_of_p_max_mirror)
    finally show ?thesis .
  qed
qed

theorem compute_mirror_symmetry_witness:
  "(0::real) < 1 \<and> (0::real) < 1 / 10 \<and>
   compute 0 (1, 1 / 2, 1, 7 / 5, 1) (1 / 8, - (1 / 4), 1 / 10, 7 / 5, 1) =
   compute 0 (1 / 8, 1 / 4, 1 / 10, 7 / 5, 1) (1, - (1 / 2), 1, 7 / 5, 1)"
  using compute_mirror_symmetry [of 1 "1 / 10" 0 1 "1 / 2" "7 / 5" 1 "1 / 8" "- (1 / 4)" "7 / 5" 1]
  by simp

subsection \<open>The correction coefficient\<close>

lemma c_low: "g \<le> 5 / 3 \<Longrightarrow> c g = 1"
  by (simp add: c_def Let_def)

lemma c_high: "3 \<le> g \<Longrightarrow> c g = sqrt 2 / 2"
  by (simp add: c_def Let_def)

lemma c_mid: "5 / 3 < g \<Longrightarrow> g < 3 \<Longrightarrow> c g = sqrt ((3 * g + 11) / (6 * (g + 1)))"
  by (simp add: c_def Let_def)

lemma radicand_split: "g \<noteq> - 1 \<Longrightarrow> (3 * g + 11) / (6 * (g + 1)) = 1 / 2 + 4 / (3 * (g + 1))" for g :: real
  by (simp add: field_simps)

lemma c_formula_on: "5 / 3 \<le> g \<Longrightarrow> g < 3 \<Longrightarrow> c g = sqrt ((3 * g + 11) / (6 * (g + 1)))"
  by (cases "g = 5 / 3") (simp_all add: c_low c_mid)

lemma c_continuous_below_3: "continuous_on {5 / 3..<3} c"
proof -
  have "continuous_on {5 / 3..<3} (\<lambda>g::real. sqrt ((3 * g + 11) / (6 * (g + 1))))"
    by (intro continuous_intros) auto
  moreover have "continuous_on {5 / 3..<3} c \<longleftrightarrow>
     continuous_on {5 / 3..<3} (\<lambda>g::real. sqrt ((3 * g + 11) / (6 * (g + 1))))"
    by (rule continuous_on_cong [OF refl]) (simp add: c_formula_on)
  ultimately show ?thesis
    by blast
qed

lemma sqrt_half: "sqrt 2 / 2 = sqrt (1 / 2)"
  by (simp add: real_sqrt_divide real_div_sqrt)

lemma c_antimono_formula:
  assumes "5 / 3 \<le> x" "x \<le> y"
  shows "sqrt ((3 * y + 11) / (6 * (y + 1))) \<le> sqrt ((3 * x + 11) / (6 * (x + 1)))"
proof -
  have "4 / (3 * (y + 1)) \<le> 4 / (3 * (x + 1))"
    using assms by (intro divide_left_mono) (auto intro: mult_pos_pos)
  moreover have "(3 * y + 11) / (6 * (y + 1)) = 1 / 2 + 4 / (3 * (y + 1))"
    using assms by (intro radicand_split) auto
  moreover have "(3 * x + 11) / (6 * (x + 1)) = 1 / 2 + 4 / (3 * (x + 1))"
    using assms by (intro radicand_split) auto
  ultimately have "(3 * y + 11) / (6 * (y + 1)) \<le> (3 * x + 11) / (6 * (x + 1))"
    by linarith
  then show ?thesis
    by (rule real_sqrt_le_mono)
qed

lemma c_antimono:
  assumes "5 / 3 \<le> x" "x \<le> y" "y \<le> 3"
  shows "c y \<le> c x"
proof (cases "y < 3")
  case True
  have "c x = sqrt ((3 * x + 11) / (6 * (x + 1)))"
    by (rule c_formula_on) (use True assms in linarith)+
  moreover have "c y = sqrt ((3 * y + 11) / (6 * (y + 1)))"
    by (rule c_formula_on) (use True assms in linarith)+
  ultimately show ?thesis
    using c_antimono_formula [OF assms(1,2)] by (simp only:)
next
  case False
  then have y: "y = 3" using assms by simp
  show ?thesis
  proof (cases "x < 3")
    case True
    have "sqrt ((3 * 3 + 11) / (6 * (3 + 1))) \<le> sqrt ((3 * x + 11) / (6 * (x + 1)))"
      using assms True by (intro c_antimono_formula) auto
    moreover have "sqrt (1 / 2) \<le> sqrt ((3 * 3 + 11) / (6 * (3 + 1)) :: real)"
      by (rule real_sqrt_le_mono) simp
    moreover have "c x = sqrt ((3 * x + 11) / (6 * (x + 1)))"
      by (rule c_formula_on) (use True assms in linarith)+
    moreover have "c y = sqrt (1 / 2)"
      using y by (simp only: c_high [OF order_refl] sqrt_half)
    ultimately show ?thesis by linarith
  next
    case False
    then show ?thesis using assms y by simp
  qed
qed

text \<open>
  Claim C4 as stated fails at the right end point: immediately below \<open>gamma = 3\<close> the
  coefficient is at least \<open>sqrt (5 / 6)\<close>, at \<open>gamma = 3\<close> it is \<open>sqrt 2 / 2\<close>, so \<open>c\<close>
  is not continuous on the closed interval from \<open>5 / 3\<close> to \<open>3\<close>.
\<close>

theorem c_jump_at_3: "\<not> continuous_on {5 / 3..3} c"
proof
  assume "continuous_on {5 / 3..3} c"
  then have "(c \<longlongrightarrow> c 3) (at 3 within {5 / 3..3})"
    by (simp add: continuous_on_def)
  then have "eventually (\<lambda>x. dist (c x) (c 3) < 1 / 10) (at 3 within {5 / 3..3})"
    by (rule tendstoD) simp
  then obtain d where d: "0 < d"
    and close: "\<And>x'. x' \<in> {5 / 3..3} \<Longrightarrow> x' \<noteq> 3 \<Longrightarrow> dist x' 3 < d \<Longrightarrow> dist (c x') (c 3) < 1 / 10"
    unfolding eventually_at by blast
  define x' where "x' = max 2 (3 - d / 2)"
  have x': "2 \<le> x'" "x' < 3" "dist x' 3 < d"
    using d by (auto simp: x'_def dist_real_def max_def)
  have "sqrt ((3 * 3 + 11) / (6 * (3 + 1))) \<le> sqrt ((3 * x' + 11) / (6 * (x' + 1)))"
    using x' by (intro c_antimono_formula) auto
  moreover have "9 / 10 \<le> sqrt ((3 * 3 + 11) / (6 * (3 + 1)) :: real)"
    by (rule real_le_rsqrt) (simp add: power2_eq_square)
  moreover have "c x' = sqrt ((3 * x' + 11) / (6 * (x' + 1)))"
    by (rule c_formula_on) (use x' in linarith)+
  ultimately have lo: "9 / 10 \<le> c x'"
    by linarith
  have "sqrt 2 \<le> 3 / 2"
    by (rule real_le_lsqrt) (simp_all add: power2_eq_square)
  then have hi: "c 3 \<le> 3 / 4"
    by (simp add: c_high)
  have "dist (c x') (c 3) < 1 / 10"
    using x' by (intro close) auto
  with lo hi show False
    by (simp add: dist_real_def)
qed

text \<open>
  Claim C4, amended.  \<open>c gamma = 1\<close> for \<open>gamma \<le> 5 / 3\<close>, \<open>c gamma = sqrt 2 / 2\<close> for
  \<open>gamma \<ge> 3\<close>, and \<open>c gamma = sqrt ((3 * gamma + 11) / (6 * (gamma + 1)))\<close> strictly in
  between; in particular \<open>c (5 / 3) = 1\<close> and \<open>c 3 = sqrt 2 / 2\<close>.  The coefficient is
  continuous on the half-open interval from \<open>5 / 3\<close> up to, but excluding, \<open>3\<close>, and it is
  monotone non-increasing on the closed interval from \<open>5 / 3\<close> to \<open>3\<close>.
\<close>

theorem c_piecewise:
  "(\<forall>g. g \<le> 5 / 3 \<longrightarrow> c g = 1) \<and>
   (\<forall>g. 3 \<le> g \<longrightarrow> c g = sqrt 2 / 2) \<and>
   (\<forall>g. 5 / 3 < g \<and> g < 3 \<longrightarrow> c g = sqrt ((3 * g + 11) / (6 * (g + 1)))) \<and>
   c (5 / 3) = 1 \<and> c 3 = sqrt 2 / 2 \<and>
   continuous_on {5 / 3..<3} c \<and>
   (\<forall>x y. 5 / 3 \<le> x \<and> x \<le> y \<and> y \<le> 3 \<longrightarrow> c y \<le> c x)"
  using c_continuous_below_3 by (auto simp: c_low c_high c_mid c_antimono)

theorem c_piecewise_witness:
  "(1::real) \<le> 5 / 3 \<and> c 1 = 1 \<and> (3::real) \<le> 4 \<and> c 4 = sqrt 2 / 2 \<and>
   (5 / 3 < (2::real) \<and> (2::real) < 3) \<and> c 2 = sqrt ((3 * 2 + 11) / (6 * (2 + 1))) \<and>
   (5 / 3 \<le> (2::real) \<and> (2::real) \<le> 3 \<and> (3::real) \<le> 3) \<and> c 3 \<le> c 2"
proof -
  have mono: "\<forall>x y. 5 / 3 \<le> x \<and> x \<le> y \<and> y \<le> 3 \<longrightarrow> c y \<le> c x"
    using c_piecewise by blast
  have mid: "\<forall>g. 5 / 3 < g \<and> g < 3 \<longrightarrow> c g = sqrt ((3 * g + 11) / (6 * (g + 1)))"
    using c_piecewise by blast
  have low: "\<forall>g. g \<le> 5 / 3 \<longrightarrow> c g = 1"
    using c_piecewise by blast
  have high: "\<forall>g. 3 \<le> g \<longrightarrow> c g = sqrt 2 / 2"
    using c_piecewise by blast
  from mono have "5 / 3 \<le> (2::real) \<and> (2::real) \<le> 3 \<and> (3::real) \<le> 3 \<longrightarrow> c 3 \<le> c 2"
    by blast
  then have "c 3 \<le> c 2"
    by simp
  moreover from mid have "5 / 3 < (2::real) \<and> (2::real) < 3 \<longrightarrow> c 2 = sqrt ((3 * 2 + 11) / (6 * (2 + 1)))"
    by blast
  then have "c 2 = sqrt ((3 * 2 + 11) / (6 * (2 + 1)))"
    by simp
  moreover from low have "c 1 = 1"
    by simp
  moreover from high have "c 4 = sqrt 2 / 2"
    by simp
  ultimately show ?thesis
    by simp
qed


section \<open>Where the operations of the Riemann solver are defined\<close>

lemma c_pos: "- 1 < g \<Longrightarrow> 0 < c g"
  by (simp add: c_def Let_def)

lemma alpha_pos: "0 < a \<Longrightarrow> b * rho < 1 \<Longrightarrow> 1 < g \<Longrightarrow> 0 < alpha b rho g a"
  by (simp add: alpha_def Let_def)

lemma alpha_chk_ok: "g \<noteq> 1 \<Longrightarrow> alpha_chk b rho g a = Inr (alpha b rho g a)"
  by (simp add: alpha_chk_def alpha_def chk_div_def Let_def)

lemma c_chk_ok: "- 1 < g \<Longrightarrow> c_chk g = Inr (c g)"
  by (simp add: c_chk_def c_def bind_chk_def chk_div_def chk_sqrt_def Let_def not_less)

lemma lambda1_minus_chk_ok:
  "0 < p \<Longrightarrow> 0 < g \<Longrightarrow> lambda1_minus_chk (rho, u, p, g, a) p_star = Inr (lambda1_minus (rho, u, p, g, a) p_star)"
  by (simp add: lambda1_minus_chk.simps lambda1_minus.simps bind_chk_def chk_div_def chk_sqrt_def
      Let_def not_less positive_part_def add_nonneg_nonneg)

lemma lambda3_plus_chk_ok:
  "0 < p \<Longrightarrow> 0 < g \<Longrightarrow> lambda3_plus_chk (rho, u, p, g, a) p_star = Inr (lambda3_plus (rho, u, p, g, a) p_star)"
  by (simp add: lambda3_plus_chk.simps lambda3_plus.simps bind_chk_def chk_div_def chk_sqrt_def
      Let_def not_less positive_part_def add_nonneg_nonneg)

lemma compute_lambda_chk_ok:
  "0 < p_i \<Longrightarrow> 0 < g_i \<Longrightarrow> 0 < p_j \<Longrightarrow> 0 < g_j \<Longrightarrow>
   compute_lambda_chk (rho_i, u_i, p_i, g_i, a_i) (rho_j, u_j, p_j, g_j, a_j) p_star =
   Inr (compute_lambda (rho_i, u_i, p_i, g_i, a_i) (rho_j, u_j, p_j, g_j, a_j) p_star)"
  by (simp add: compute_lambda_chk_def compute_lambda_def lambda1_minus_chk_ok lambda3_plus_chk_ok
      bind_chk_def Let_def)


lemma bind_chk_Inr: "bind_chk (Inr v) f = f v"
  by (simp add: bind_chk_def)

lemma chk_div_ok: "y \<noteq> 0 \<Longrightarrow> chk_div x y = Inr (x / y)"
  by (simp add: chk_div_def)

lemma chk_sqrt_ok: "0 \<le> x \<Longrightarrow> chk_sqrt x = Inr (sqrt x)"
  by (simp add: chk_sqrt_def)

lemma chk_pow_ok: "0 < x \<or> (x = 0 \<and> 0 < b) \<Longrightarrow> chk_pow x b = Inr (vec_pow x b)"
  by (auto simp add: chk_pow_def)

lemma phi_radicand_pos:
  fixes rho p g b p_max :: real
  assumes "0 < rho" "0 < p" "1 \<le> g" "b * rho < 1" "p \<le> p_max"
  shows "0 < 0.5 * rho / (1 - b * rho) * ((g + 1) * p_max + (g - 1) * p)"
proof -
  have "0 < 0.5 * rho / (1 - b * rho)"
    using assms by simp
  moreover have "0 < (g + 1) * p_max"
    using assms by (intro mult_pos_pos) auto
  moreover have "0 \<le> (g - 1) * p"
    using assms by (intro mult_nonneg_nonneg) auto
  ultimately show ?thesis
    by (intro mult_pos_pos) linarith+
qed

lemma phi_of_p_max_chk_ok:
  assumes "0 < rho_i" "0 < p_i" "1 \<le> g_i" "b * rho_i < 1"
    and "0 < rho_j" "0 < p_j" "1 \<le> g_j" "b * rho_j < 1"
  shows "phi_of_p_max_chk b (rho_i, u_i, p_i, g_i, a_i) (rho_j, u_j, p_j, g_j, a_j) =
         Inr (phi_of_p_max b (rho_i, u_i, p_i, g_i, a_i) (rho_j, u_j, p_j, g_j, a_j))"
proof -
  let ?r_i = "0.5 * rho_i / (1 - b * rho_i) * ((g_i + 1) * max p_i p_j + (g_i - 1) * p_i)"
  let ?r_j = "0.5 * rho_j / (1 - b * rho_j) * ((g_j + 1) * max p_i p_j + (g_j - 1) * p_j)"
  have i: "0 < ?r_i"
    using assms by (intro phi_radicand_pos) auto
  have j: "0 < ?r_j"
    using assms by (intro phi_radicand_pos) auto
  have d: "1 - b * rho_i \<noteq> 0" "1 - b * rho_j \<noteq> 0"
    using assms by auto
  have r: "0 \<le> ?r_i" "0 \<le> ?r_j"
    using i j by linarith+
  have n: "sqrt ?r_i \<noteq> 0" "sqrt ?r_j \<noteq> 0"
    using real_sqrt_gt_zero [OF i] real_sqrt_gt_zero [OF j] by linarith+
  show ?thesis
    by (simp only: phi_of_p_max_chk.simps phi_of_p_max.simps Let_def bind_chk_Inr
        chk_div_ok [OF d(1)] chk_div_ok [OF d(2)] chk_sqrt_ok [OF r(1)] chk_sqrt_ok [OF r(2)]
        chk_div_ok [OF n(1)] chk_div_ok [OF n(2)])
qed

lemma p_star_SS_aeos_chk_ok:
  assumes "0 < rho_i" "0 < p_i" "0 < a_i" "1 < g_i" "b * rho_i < 1"
    and "0 < rho_j" "0 < p_j" "0 < a_j" "1 < g_j" "b * rho_j < 1"
    and gap: "u_j - u_i \<le> gap_limit_SS b (rho_i, u_i, p_i, g_i, a_i) (rho_j, u_j, p_j, g_j, a_j)"
  shows "p_star_SS_aeos_chk b (rho_i, u_i, p_i, g_i, a_i) (rho_j, u_j, p_j, g_j, a_j) =
         Inr (p_star_SS_aeos b (rho_i, u_i, p_i, g_i, a_i) (rho_j, u_j, p_j, g_j, a_j))"
proof -
  let ?g = "min g_i g_j"
  let ?e = "(?g - 1) / (2 * ?g)"
  let ?l = "c g_i * alpha b rho_i g_i a_i"
  let ?r = "c g_j * alpha b rho_j g_j a_j"
  let ?num = "?l + ?r - (u_j - u_i)"
  let ?den = "?l * vec_pow p_i (- ?e) + ?r * vec_pow p_j (- ?e)"
  have g: "1 < ?g"
    using assms by simp
  have ci: "c_chk g_i = Inr (c g_i)" and cj: "c_chk g_j = Inr (c g_j)"
    using assms by (auto intro: c_chk_ok)
  have ai: "alpha_chk b rho_i g_i a_i = Inr (alpha b rho_i g_i a_i)"
    and aj: "alpha_chk b rho_j g_j a_j = Inr (alpha b rho_j g_j a_j)"
    using assms by (auto intro: alpha_chk_ok)
  have l: "0 < ?l" and r: "0 < ?r"
    using assms by (auto intro!: mult_pos_pos c_pos alpha_pos)
  have d1: "2 * ?g \<noteq> 0"
    using g by linarith
  have e: "0 < ?e"
    by (intro divide_pos_pos) (use g in linarith)+
  then have d2: "?e \<noteq> 0"
    by linarith
  have pi: "0 < p_i \<or> (p_i = 0 \<and> 0 < - ?e)" and pj: "0 < p_j \<or> (p_j = 0 \<and> 0 < - ?e)"
    using assms(2,7) by blast+
  have "0 < vec_pow p_i (- ?e)" "0 < vec_pow p_j (- ?e)"
    using assms by (simp_all add: vec_pow_def)
  then have "0 < ?l * vec_pow p_i (- ?e)" "0 < ?r * vec_pow p_j (- ?e)"
    using l r by (simp_all only: mult_pos_pos)
  then have den: "0 < ?den"
    by (rule add_pos_pos)
  then have d3: "?den \<noteq> 0"
    by linarith
  have "0 \<le> ?num"
    using gap unfolding gap_limit_SS.simps by linarith
  then have "0 \<le> ?num / ?den"
    using den by (intro divide_nonneg_pos)
  moreover have "0 < 1 / ?e"
    by (rule divide_pos_pos [OF zero_less_one e])
  ultimately have base: "0 < ?num / ?den \<or> (?num / ?den = 0 \<and> 0 < 1 / ?e)"
    by linarith
  show ?thesis
    by (simp only: p_star_SS_aeos_chk.simps p_star_SS_aeos.simps Let_def bind_chk_Inr ci cj ai aj
        chk_div_ok [OF d1] chk_div_ok [OF d2] chk_pow_ok [OF pi] chk_pow_ok [OF pj]
        chk_div_ok [OF d3] chk_pow_ok [OF base])
qed


lemma p_star_RS_aeos_chk_ok:
  assumes "0 < rho_i" "0 < p_i" "0 < a_i" "1 < g_i" "b * rho_i < 1"
    and "0 < rho_j" "0 < p_j" "0 < a_j" "1 < g_j" "b * rho_j < 1"
    and gap: "u_j - u_i \<le> gap_limit_RS b (rho_i, u_i, p_i, g_i, a_i) (rho_j, u_j, p_j, g_j, a_j)"
  shows "p_star_RS_aeos_chk b (rho_i, u_i, p_i, g_i, a_i) (rho_j, u_j, p_j, g_j, a_j) =
         Inr (p_star_RS_aeos b (rho_i, u_i, p_i, g_i, a_i) (rho_j, u_j, p_j, g_j, a_j))"
proof -
  let ?ai = "alpha b rho_i g_i a_i"
  let ?aj = "alpha b rho_j g_j a_j"
  let ?gmin = "if p_i < p_j then g_i else g_j"
  let ?gmax = "if p_j \<le> p_i then g_i else g_j"
  let ?amin = "if p_i < p_j then ?ai else ?aj"
  let ?amax = "if p_j \<le> p_i then ?ai else ?aj"
  let ?emin = "2 * ?gmin / (?gmin - 1)"
  let ?emax = "(?gmax - 1) / (2 * ?gmax)"
  let ?ratio = "min p_i p_j / max p_i p_j"
  let ?num = "?amax * (1 - vec_pow ?ratio ?emax) - (u_j - u_i)"
  let ?den = "c ?gmin * ?amin"
  have ai: "alpha_chk b rho_i g_i a_i = Inr ?ai" and aj: "alpha_chk b rho_j g_j a_j = Inr ?aj"
    using assms by (auto intro: alpha_chk_ok)
  have pos: "0 < ?ai" "0 < ?aj"
    using assms by (auto intro: alpha_pos)
  have gmin: "1 < ?gmin" and gmax: "1 < ?gmax"
    using assms by simp_all
  have cg: "c_chk ?gmin = Inr (c ?gmin)"
    by (rule c_chk_ok) (use gmin in linarith)
  have d1: "?gmin - 1 \<noteq> 0"
    using gmin by linarith
  have d2: "2 * ?gmax \<noteq> 0"
    using gmax by linarith
  have d3: "max p_i p_j \<noteq> 0"
    using assms by (simp add: max_def)
  have "0 < ?ratio"
    using assms by (simp add: min_def max_def)
  then have pw: "0 < ?ratio \<or> (?ratio = 0 \<and> 0 < ?emax)"
    by blast
  have "0 < c ?gmin"
    by (rule c_pos) (use gmin in linarith)
  moreover have "0 < ?amin"
    using pos by simp
  ultimately have den: "0 < ?den"
    by (rule mult_pos_pos)
  then have d4: "?den \<noteq> 0"
    by linarith
  have "u_j - u_i \<le> ?amax * (1 - vec_pow ?ratio ?emax) + ?den"
    using gap
    by (simp only: gap_limit_RS.simps Let_def compare_and_apply_mask.simps)
  then have "- 1 * ?den \<le> ?num"
    by linarith
  then have "- 1 \<le> ?num / ?den"
    using den by (simp only: pos_le_divide_eq)
  then have "0 \<le> ?num / ?den + 1"
    by linarith
  moreover have "0 < ?emin"
    by (intro divide_pos_pos) (use gmin in linarith)+
  ultimately have base: "0 < ?num / ?den + 1 \<or> (?num / ?den + 1 = 0 \<and> 0 < ?emin)"
    by linarith
  show ?thesis
    by (simp only: p_star_RS_aeos_chk.simps p_star_RS_aeos.simps Let_def bind_chk_Inr ai aj
        compare_and_apply_mask.simps cg chk_div_ok [OF d1] chk_div_ok [OF d2] chk_div_ok [OF d3]
        chk_pow_ok [OF pw] chk_div_ok [OF d4] chk_pow_ok [OF base])
qed

text \<open>
  Claim C3 as stated fails: \<open>gamma = 1\<close> is within the documented domain, and there
  \<open>alpha\<close> divides by \<open>gamma - 1 = 0\<close>.
\<close>

theorem compute_undefined_at_gamma_one:
  "documented_state (1, 0, 1, 1, 1) \<and>
   compute_chk 0 (1, 0, 1, 1, 1) (1, 0, 1, 1, 1) = Inl DivisionByZero"
  by (simp add: compute_chk.simps phi_of_p_max_chk.simps p_star_SS_aeos_chk.simps c_chk_def
      alpha_chk_def bind_chk_def chk_div_def chk_sqrt_def Let_def)

text \<open>
  Two more ways out of the domain.  With \<open>gamma = 7 / 5\<close>, a covolume factor
  \<open>1 - b_interp * rho\<close> that vanishes.  With \<open>gamma = 3\<close>, \<open>a\<^sup>2 = gamma * p / rho\<close> and a
  velocity gap \<open>3 / 2\<close> that is below \<open>alpha_i + alpha_j = 2\<close> but above
  \<open>c gamma_i * alpha_i + c gamma_j * alpha_j = sqrt 2\<close>, a negative base of the power in
  \<open>p_star_SS_aeos\<close>.
\<close>

lemma sqrt_2_less: "sqrt 2 < 3 / 2"
  by (rule real_less_lsqrt) (simp_all add: power2_eq_square)

lemma compute_undefined_elsewhere:
  "documented_state (1, 0, 1, 7 / 5, 1) \<and>
   compute_chk 1 (1, 0, 1, 7 / 5, 1) (1, 0, 1, 7 / 5, 1) = Inl DivisionByZero"
  "documented_state (3, 0, 1, 3, 1) \<and> documented_state (3, 3 / 2, 1, 3, 1) \<and>
   compute_chk 0 (3, 0, 1, 3, 1) (3, 3 / 2, 1, 3, 1) = Inl PowDomain"
  using sqrt_2_less
  by (simp_all add: compute_chk.simps phi_of_p_max_chk.simps p_star_SS_aeos_chk.simps c_chk_def
      alpha_chk_def bind_chk_def chk_div_def chk_sqrt_def chk_pow_def vec_pow_def Let_def field_simps)

text \<open>
  Claim C3, amended.  For two primitive states with \<open>rho > 0\<close>, \<open>p > 0\<close>, \<open>a > 0\<close>,
  \<open>gamma > 1\<close> and \<open>b_interp * rho < 1\<close>, whose velocity gap \<open>u_j - u_i\<close> exceeds neither
  \<open>gap_limit_SS\<close> nor \<open>gap_limit_RS\<close>, every division of \<open>compute\<close> has a non-zero
  denominator, every square root a non-negative argument and every power a valid base: the
  evaluation reaches no error and yields the value of \<open>compute\<close>.
\<close>

theorem compute_defined_on_admissible_states:
  assumes "admissible_state b (rho_i, u_i, p_i, gamma_i, a_i)"
    and "admissible_state b (rho_j, u_j, p_j, gamma_j, a_j)"
    and "u_j - u_i \<le> gap_limit_SS b (rho_i, u_i, p_i, gamma_i, a_i) (rho_j, u_j, p_j, gamma_j, a_j)"
    and "u_j - u_i \<le> gap_limit_RS b (rho_i, u_i, p_i, gamma_i, a_i) (rho_j, u_j, p_j, gamma_j, a_j)"
  shows "compute_chk b (rho_i, u_i, p_i, gamma_i, a_i) (rho_j, u_j, p_j, gamma_j, a_j) =
         Inr (compute b (rho_i, u_i, p_i, gamma_i, a_i) (rho_j, u_j, p_j, gamma_j, a_j))"
proof -
  have i: "0 < rho_i" "0 < p_i" "0 < a_i" "1 < gamma_i" "b * rho_i < 1"
    and j: "0 < rho_j" "0 < p_j" "0 < a_j" "1 < gamma_j" "b * rho_j < 1"
    using assms(1,2) by simp_all
  have phi: "phi_of_p_max_chk b (rho_i, u_i, p_i, gamma_i, a_i) (rho_j, u_j, p_j, gamma_j, a_j) =
      Inr (phi_of_p_max b (rho_i, u_i, p_i, gamma_i, a_i) (rho_j, u_j, p_j, gamma_j, a_j))"
    using i j by (intro phi_of_p_max_chk_ok) linarith+
  have SS: "p_star_SS_aeos_chk b (rho_i, u_i, p_i, gamma_i, a_i) (rho_j, u_j, p_j, gamma_j, a_j) =
      Inr (p_star_SS_aeos b (rho_i, u_i, p_i, gamma_i, a_i) (rho_j, u_j, p_j, gamma_j, a_j))"
    using i j assms(3) by (rule p_star_SS_aeos_chk_ok)
  have RS: "p_star_RS_aeos_chk b (rho_i, u_i, p_i, gamma_i, a_i) (rho_j, u_j, p_j, gamma_j, a_j) =
      Inr (p_star_RS_aeos b (rho_i, u_i, p_i, gamma_i, a_i) (rho_j, u_j, p_j, gamma_j, a_j))"
    using i j assms(4) by (rule p_star_RS_aeos_chk_ok)
  have lam: "\<And>p_star. compute_lambda_chk (rho_i, u_i, p_i, gamma_i, a_i) (rho_j, u_j, p_j, gamma_j, a_j) p_star =
      Inr (compute_lambda (rho_i, u_i, p_i, gamma_i, a_i) (rho_j, u_j, p_j, gamma_j, a_j) p_star)"
    using i j by (intro compute_lambda_chk_ok) linarith+
  show ?thesis
    by (simp only: compute_chk.simps compute.simps Let_def phi SS RS lam bind_chk_Inr)
qed

theorem compute_defined_on_admissible_states_witness:
  "admissible_state 0 (1, 0, 1, 7 / 5, 1) \<and> admissible_state 0 (1 / 8, 0, 1 / 10, 7 / 5, 1) \<and>
   compute_chk 0 (1, 0, 1, 7 / 5, 1) (1 / 8, 0, 1 / 10, 7 / 5, 1) =
   Inr (compute 0 (1, 0, 1, 7 / 5, 1) (1 / 8, 0, 1 / 10, 7 / 5, 1))"
proof -
  have 1: "admissible_state 0 (1, 0, 1, 7 / 5, 1)" "admissible_state 0 (1 / 8, 0, 1 / 10, 7 / 5, 1)"
    by simp_all
  have c: "c (7 / 5) = 1"
    by (simp add: c_def Let_def)
  have 2: "0 - 0 \<le> gap_limit_SS 0 (1, 0, 1, 7 / 5, 1) (1 / 8, 0, 1 / 10, 7 / 5, 1)"
    by (simp add: gap_limit_SS.simps c alpha_def Let_def)
  have "(1 / 10) powr (1 / 7) \<le> (1 :: real)"
    by (rule powr_le1) simp_all
  then have 3: "0 - 0 \<le> gap_limit_RS 0 (1, 0, 1, 7 / 5, 1) (1 / 8, 0, 1 / 10, 7 / 5, 1)"
    by (simp add: gap_limit_RS.simps c alpha_def vec_pow_def Let_def)
  show ?thesis
    using compute_defined_on_admissible_states [OF 1 2 3] 1 by simp
qed


section \<open>Properties of the equations of state\<close>

lemma polytropic_round_trip:
  assumes "rho \<noteq> 0" "gamma \<noteq> 1"
  shows "pressure_oracle (PolytropicGas gamma) rho (rho * sie_from_rho_p (PolytropicGas gamma) rho pressure) = pressure"
    and "rho * sie_from_rho_p (PolytropicGas gamma) rho (pressure_oracle (PolytropicGas gamma) rho e_vol) = e_vol"
  using assms by (simp_all add: Let_def)

lemma nasg_pressure_of_sie:
  assumes "1 - b * rho \<noteq> 0" "gamma \<noteq> 1"
  shows "pressure_oracle (NobleAbleStiffenedGas gamma b q pinf) rho
           (rho * sie_from_rho_p (NobleAbleStiffenedGas gamma b q pinf) rho pressure) =
         (pressure + gamma * pinf) * rho\<^sup>2 - gamma * pinf"
proof -
  define cov where "cov = 1 - b * rho"
  define k where "k = (pressure + gamma * pinf) / (gamma - 1)"
  have "rho * sie_from_rho_p (NobleAbleStiffenedGas gamma b q pinf) rho pressure - q * rho =
        k * rho\<^sup>2 * cov"
    by (simp add: Let_def cov_def k_def algebra_simps power2_eq_square)
  then have "pressure_oracle (NobleAbleStiffenedGas gamma b q pinf) rho
           (rho * sie_from_rho_p (NobleAbleStiffenedGas gamma b q pinf) rho pressure) =
         (gamma - 1) * (k * rho\<^sup>2 * cov) / cov - gamma * pinf"
    by (simp add: Let_def cov_def)
  also have "(gamma - 1) * (k * rho\<^sup>2 * cov) / cov = (gamma - 1) * k * rho\<^sup>2"
    using assms by (simp add: cov_def)
  also have "(gamma - 1) * k = pressure + gamma * pinf"
    using assms by (simp add: k_def)
  finally show ?thesis .
qed

text \<open>
  Claim C5 at a concrete input: for the Noble-Abel stiffened gas with its default parameters,
  \<open>rho = 2\<close> and \<open>p = 1\<close>, the pressure of \<open>rho\<close> times the specific internal energy is
  \<open>4\<close>, not \<open>1\<close>; likewise \<open>rho\<close> times the specific internal energy of the pressure of
  \<open>e_vol = 1\<close> is \<open>4\<close>, not \<open>1\<close>.  The polytropic gas returns \<open>1\<close> at the same input.
\<close>

theorem nasg_round_trip_fails:
  "pressure_oracle NobleAbleStiffenedGas_default 2
     (2 * sie_from_rho_p NobleAbleStiffenedGas_default 2 1) = 4 \<and>
   2 * sie_from_rho_p NobleAbleStiffenedGas_default 2
     (pressure_oracle NobleAbleStiffenedGas_default 2 1) = 4 \<and>
   pressure_oracle PolytropicGas_default 2
     (2 * sie_from_rho_p PolytropicGas_default 2 1) = 1"
  by (simp add: NobleAbleStiffenedGas_default_def PolytropicGas_default_def Let_def)

text \<open>
  Claim C10.  With \<open>b = 0\<close>, \<open>q = 0\<close> and \<open>pinf = 0\<close> the pressure oracle of the Noble-Abel
  stiffened gas is that of the polytropic gas, \<open>(gamma - 1) * e_vol\<close>, for every density
  and every volumetric internal energy.
\<close>

theorem nasg_defaults_degenerate_to_polytropic:
  "pressure_oracle (NobleAbleStiffenedGas gamma 0 0 0) rho e_vol =
     pressure_oracle (PolytropicGas gamma) rho e_vol \<and>
   pressure_oracle (PolytropicGas gamma) rho e_vol = (gamma - 1) * e_vol"
  by (simp add: Let_def)


section \<open>Properties of the time integrator\<close>

text \<open>
  Claim C9.  For each of the three schemes the final weights sum to exactly one:
  \<open>1/6 + 1/6 + 2/3\<close> for \<open>ssprk_33\<close>, \<open>1/4 + 0 + 3/4\<close> for \<open>erk_33\<close> and
  \<open>0 + 2/3 - 1/3 + 2/3\<close> for \<open>erk_43\<close>, in rational arithmetic.
\<close>

theorem final_weights_sum_to_one:
  "sum_list (final_weights scheme) = 1 \<and>
   final_weights ssprk_33 = [1 / 6, 1 / 6, 2 / 3] \<and> (1 / 6 + 1 / 6 + 2 / 3 :: rat) = 1 \<and>
   final_weights erk_33 = [1 / 4, 0, 3 / 4] \<and> (1 / 4 + 0 + 3 / 4 :: rat) = 1 \<and>
   final_weights erk_43 = [0, 2 / 3, - (1 / 3), 2 / 3] \<and> (0 + 2 / 3 - 1 / 3 + 2 / 3 :: rat) = 1"
  by (cases scheme) simp_all

text \<open>
  Claim C7.  When the attempt with \<open>cfl_max\<close> reports a violation: under strategy \<open>none\<close>
  that attempt is the result, the violation stays observable, there is no retry and no
  warning; under \<open>bang_bang_control\<close> the result is that of a second attempt of the whole
  step, started from the original \<open>U\<close> with \<open>cfl_min\<close>, accepted whether or not it violates
  again, with a warning exactly when it does.  Every attempt is a whole step from the
  original \<open>U\<close>, and there are at most two.
\<close>

theorem step_recovery_protocol:
  assumes "violated (dispatch (time_stepping_scheme ctx) R (cfl_max ctx) U)"
  shows "(cfl_recovery_strategy ctx = none \<longrightarrow>
            step ctx R U =
              \<lparr>U_new = U_out (dispatch (time_stepping_scheme ctx) R (cfl_max ctx) U),
               tau = tau_actual (dispatch (time_stepping_scheme ctx) R (cfl_max ctx) U),
               violation = True, warning = False, attempts = [(cfl_max ctx, U)]\<rparr>) \<and>
         (cfl_recovery_strategy ctx = bang_bang_control \<longrightarrow>
            step ctx R U =
              \<lparr>U_new = U_out (dispatch (time_stepping_scheme ctx) R (cfl_min ctx) U),
               tau = tau_actual (dispatch (time_stepping_scheme ctx) R (cfl_min ctx) U),
               violation = violated (dispatch (time_stepping_scheme ctx) R (cfl_min ctx) U),
               warning = violated (dispatch (time_stepping_scheme ctx) R (cfl_min ctx) U),
               attempts = [(cfl_max ctx, U), (cfl_min ctx, U)]\<rparr>) \<and>
         (\<forall>(cfl, U0) \<in> set (attempts (step ctx R U)). U0 = U \<and> (cfl = cfl_max ctx \<or> cfl = cfl_min ctx)) \<and>
         length (attempts (step ctx R U)) \<le> 2"
  using assms by (cases "cfl_recovery_strategy ctx") (simp_all add: step_def Let_def)


theorem step_recovery_protocol_witness:
  "violated ((\<lambda>cfl U. \<lparr>U_out = U + cfl, tau_actual = cfl, violated = (1 / 2 < cfl)\<rparr>) (9 / 10) (0::real)) \<and>
   step \<lparr>cfl_min = 1 / 10, cfl_max = 9 / 10, cfl_recovery_strategy = none,
         time_stepping_scheme = erk_33\<rparr>
        \<lparr>step_ssprk_33 = \<lambda>cfl U. \<lparr>U_out = U + cfl, tau_actual = cfl, violated = (1 / 2 < cfl)\<rparr>,
         step_erk_33 = \<lambda>cfl U. \<lparr>U_out = U + cfl, tau_actual = cfl, violated = (1 / 2 < cfl)\<rparr>,
         step_erk_43 = \<lambda>cfl U. \<lparr>U_out = U + cfl, tau_actual = cfl, violated = (1 / 2 < cfl)\<rparr>\<rparr>
        (0::real) =
     \<lparr>U_new = 9 / 10, tau = 9 / 10, violation = True, warning = False,
      attempts = [(9 / 10, 0)]\<rparr> \<and>
   step \<lparr>cfl_min = 1 / 10, cfl_max = 9 / 10, cfl_recovery_strategy = bang_bang_control,
         time_stepping_scheme = erk_33\<rparr>
        \<lparr>step_ssprk_33 = \<lambda>cfl U. \<lparr>U_out = U + cfl, tau_actual = cfl, violated = (1 / 2 < cfl)\<rparr>,
         step_erk_33 = \<lambda>cfl U. \<lparr>U_out = U + cfl, tau_actual = cfl, violated = (1 / 2 < cfl)\<rparr>,
         step_erk_43 = \<lambda>cfl U. \<lparr>U_out = U + cfl, tau_actual = cfl, violated = (1 / 2 < cfl)\<rparr>\<rparr>
        (0::real) =
     \<lparr>U_new = 1 / 10, tau = 1 / 10, violation = False, warning = False,
      attempts = [(9 / 10, 0), (1 / 10, 0)]\<rparr>"
  using
    step_recovery_protocol [of
      "\<lparr>cfl_min = 1 / 10, cfl_max = 9 / 10, cfl_recovery_strategy = none,
        time_stepping_scheme = erk_33\<rparr>"
      "\<lparr>step_ssprk_33 = \<lambda>cfl U. \<lparr>U_out = U + cfl, tau_actual = cfl, violated = (1 / 2 < cfl)\<rparr>,
        step_erk_33 = \<lambda>cfl U. \<lparr>U_out = U + cfl, tau_actual = cfl, violated = (1 / 2 < cfl)\<rparr>,
        step_erk_43 = \<lambda>cfl U. \<lparr>U_out = U + cfl, tau_actual = cfl, violated = (1 / 2 < cfl)\<rparr>\<rparr>"
      "0::real"]
    step_recovery_protocol [of
      "\<lparr>cfl_min = 1 / 10, cfl_max = 9 / 10, cfl_recovery_strategy = bang_bang_control,
        time_stepping_scheme = erk_33\<rparr>"
      "\<lparr>step_ssprk_33 = \<lambda>cfl U. \<lparr>U_out = U + cfl, tau_actual = cfl, violated = (1 / 2 < cfl)\<rparr>,
        step_erk_33 = \<lambda>cfl U. \<lparr>U_out = U + cfl, tau_actual = cfl, violated = (1 / 2 < cfl)\<rparr>,
        step_erk_43 = \<lambda>cfl U. \<lparr>U_out = U + cfl, tau_actual = cfl, violated = (1 / 2 < cfl)\<rparr>\<rparr>"
      "0::real"]
  by simp

section \<open>Properties of the extremum reduction\<close>

lemma ext_less_simps [simp]:
  "Finite x < Finite y \<longleftrightarrow> x < y"
  "Finite x < Infinity"
  "\<not> Infinity < z"
  by (cases z; auto simp: less_ext_number_def)+

lemma dle_refl [simp]: "dle d x x"
  by (cases d) simp_all

lemma dle_trans: "dle d x y \<Longrightarrow> dle d y z \<Longrightarrow> dle d x z"
  by (cases d) auto

lemma dle_antisym: "dle d x y \<Longrightarrow> dle d y x \<Longrightarrow> x = y"
  by (cases d) auto

lemma dle_combine [simp]: "dle d x (combine d x y)" "dle d y (combine d x y)"
  by (cases d; simp)+

lemma combine_cases: "combine d x y = x \<or> combine d x y = y"
  by (cases d) (auto simp: max_def min_def)

lemma improves_dle: "improves d t x \<longleftrightarrow> \<not> dle d x t"
  by (cases d) auto

lemma best_unique: "best d m xs \<Longrightarrow> best d m' xs \<Longrightarrow> m = m'"
  by (auto simp: best_def intro: dle_antisym)

lemma best_foldl: "best d (foldl (combine d) a xs) (a # xs)"
proof (induction xs arbitrary: a)
  case Nil
  show ?case by (simp add: best_def)
next
  case (Cons x xs)
  have IH: "best d (foldl (combine d) (combine d a x) xs) (combine d a x # xs)"
    by (rule Cons.IH)
  have "dle d a (foldl (combine d) (combine d a x) xs)" "dle d x (foldl (combine d) (combine d a x) xs)"
    using IH by (auto simp: best_def intro: dle_trans [OF dle_combine(1)] dle_trans [OF dle_combine(2)])
  then show ?case
    using IH combine_cases [of d a x] by (auto simp: best_def)
qed

lemma on_subrange_foldl: "on_subrange d acc nodes = foldl (combine d) acc (node_values nodes)"
  by (induction d acc nodes rule: on_subrange.induct) simp_all

lemma best_on_subrange: "best d (on_subrange d init nodes) (init # node_values nodes)"
  by (simp add: on_subrange_foldl best_foldl)


lemma local_of_worker_step: "local_of (snd (worker_step d sp s w)) = local_of w"
  by (cases w) simp_all

lemma shared_worker_step:
  "fst (worker_step d sp s w) = s \<or> fst (worker_step d sp s w) = local_of w"
  by (cases w) simp_all

lemma dle_worker_step:
  "worker_ok d s w \<Longrightarrow> dle d s (fst (worker_step d sp s w))"
  by (cases w) (auto simp: improves_dle, (cases d; auto)+)

lemma worker_ok_worker_step:
  "worker_ok d s w \<Longrightarrow> worker_ok d (fst (worker_step d sp s w)) (snd (worker_step d sp s w))"
  by (cases w) (auto simp: improves_dle, (cases d; auto)+)

lemma worker_ok_mono: "worker_ok d s w \<Longrightarrow> dle d s s' \<Longrightarrow> worker_ok d s' w"
  by (cases w) (auto intro: dle_trans)

lemma locals_sched_step:
  "map local_of (workers (sched_step d e cfg)) = map local_of (workers cfg)"
proof (cases e)
  case (Pair k sp)
  show ?thesis
  proof (cases "k < length (workers cfg)")
    case True
    obtain s w where sw: "worker_step d sp (shared cfg) (workers cfg ! k) = (s, w)"
      by (cases "worker_step d sp (shared cfg) (workers cfg ! k)")
    have "local_of w = local_of (workers cfg ! k)"
      using local_of_worker_step [of d sp "shared cfg" "workers cfg ! k"] sw by simp
    then have "(map local_of (workers cfg))[k := local_of w] = map local_of (workers cfg)"
      using True by (simp add: list_update_same_conv)
    then show ?thesis
      using True sw Pair by (simp add: map_update)
  next
    case False
    then show ?thesis using Pair by simp
  qed
qed

lemma region_inv_sched_step:
  assumes "region_inv d init cfg"
  shows "region_inv d init (sched_step d e cfg)"
proof (cases e)
  case (Pair k sp)
  show ?thesis
  proof (cases "k < length (workers cfg)")
    case False
    then show ?thesis using Pair assms by simp
  next
    case True
    define w0 where "w0 = workers cfg ! k"
    obtain s w where sw: "worker_step d sp (shared cfg) w0 = (s, w)"
      by (cases "worker_step d sp (shared cfg) w0")
    have w0: "w0 \<in> set (workers cfg)"
      using True by (simp add: w0_def)
    then have ok0: "worker_ok d (shared cfg) w0"
      using assms by (simp add: region_inv_def)
    have step: "sched_step d e cfg = \<lparr>shared = s, workers = (workers cfg)[k := w]\<rparr>"
      using True sw Pair by (simp add: w0_def)
    have mono: "dle d (shared cfg) s"
      using dle_worker_step [OF ok0, of sp] sw by simp
    have okw: "worker_ok d s w"
      using worker_ok_worker_step [OF ok0, of sp] sw by simp
    have "s = shared cfg \<or> s = local_of w0"
      using shared_worker_step [of d sp "shared cfg" w0] sw by auto
    moreover have "local_of w0 \<in> set (map local_of (workers cfg))"
      using w0 by simp
    moreover have "shared cfg \<in> set (init # map local_of (workers cfg))"
      using assms by (simp add: region_inv_def)
    ultimately have "s \<in> set (init # map local_of (workers cfg))"
      by auto
    moreover have "map local_of (workers (sched_step d e cfg)) = map local_of (workers cfg)"
      by (rule locals_sched_step)
    ultimately have A: "shared (sched_step d e cfg) \<in> set (init # map local_of (workers (sched_step d e cfg)))"
      using step by simp
    have B: "dle d init (shared (sched_step d e cfg))"
      using assms mono step by (auto simp: region_inv_def intro: dle_trans)
    have C: "\<forall>w' \<in> set (workers (sched_step d e cfg)). worker_ok d (shared (sched_step d e cfg)) w'"
    proof
      fix w' assume "w' \<in> set (workers (sched_step d e cfg))"
      then have "w' \<in> set ((workers cfg)[k := w])"
        using step by simp
      then have "w' = w \<or> w' \<in> set (workers cfg)"
        using set_update_subset_insert [of "workers cfg" k w] by auto
      then show "worker_ok d (shared (sched_step d e cfg)) w'"
        using okw assms mono step by (auto simp: region_inv_def intro: worker_ok_mono)
    qed
    from A B C show ?thesis
      by (simp add: region_inv_def)
  qed
qed

lemma locals_run: "map local_of (workers (run d sched cfg)) = map local_of (workers cfg)"
  by (induction sched arbitrary: cfg) (simp_all add: locals_sched_step del: sched_step.simps)

lemma region_inv_run: "region_inv d init cfg \<Longrightarrow> region_inv d init (run d sched cfg)"
  by (induction sched arbitrary: cfg) (simp_all add: region_inv_sched_step del: sched_step.simps)

lemma worker_ok_finished: "is_finished w \<Longrightarrow> worker_ok d s w \<Longrightarrow> dle d (local_of w) s"
  by (cases w) simp_all

lemma best_shared_if_finished:
  assumes "region_inv d init cfg" "all_finished cfg"
  shows "best d (shared cfg) (init # map local_of (workers cfg))"
  using assms
  by (auto simp: best_def region_inv_def all_finished_def list_all_iff intro: worker_ok_finished)

lemma parallel_region_best:
  assumes "all_finished (parallel_region d init subranges sched)"
  shows "best d (shared (parallel_region d init subranges sched))
           (init # map (on_subrange d init) subranges)"
proof -
  let ?cfg0 = "\<lparr>shared = init, workers = map (\<lambda>nodes. AtLoad (on_subrange d init nodes)) subranges\<rparr>"
  have "region_inv d init ?cfg0"
    by (auto simp: region_inv_def)
  then have "region_inv d init (parallel_region d init subranges sched)"
    unfolding parallel_region_def by (rule region_inv_run)
  then have "best d (shared (parallel_region d init subranges sched))
     (init # map local_of (workers (parallel_region d init subranges sched)))"
    using assms by (rule best_shared_if_finished)
  moreover have "map local_of (workers (parallel_region d init subranges sched)) =
     map (on_subrange d init) subranges"
    by (simp add: parallel_region_def locals_run comp_def)
  ultimately show ?thesis
    by simp
qed


lemma best_concat:
  assumes each: "\<forall>gv \<in> set gvs. best d (fst gv) (init # snd gv)"
    and top: "best d m (init # map fst gvs)"
  shows "best d m (init # concat (map snd gvs))"
proof -
  have mem: "m \<in> set (init # concat (map snd gvs))"
  proof (cases "m = init")
    case True
    then show ?thesis by simp
  next
    case False
    then obtain gv where gv: "gv \<in> set gvs" "m = fst gv"
      using top by (auto simp: best_def)
    then have "fst gv \<in> set (init # snd gv)"
      using each by (auto simp: best_def)
    then show ?thesis
      using gv False by auto
  qed
  have bound: "dle d y m" if y: "y \<in> set (init # concat (map snd gvs))" for y
  proof (cases "y = init")
    case True
    then show ?thesis using top by (simp add: best_def)
  next
    case False
    then obtain gv where gv: "gv \<in> set gvs" "y \<in> set (snd gv)"
      using y by auto
    then have "dle d y (fst gv)"
      using each by (auto simp: best_def)
    moreover have "dle d (fst gv) m"
      using top gv(1) by (simp add: best_def)
    ultimately show ?thesis
      by (rule dle_trans)
  qed
  show ?thesis
    using mem bound by (simp add: best_def)
qed

lemma process_best:
  assumes "all_finished (parallel_region d init subranges sched)"
  shows "best d (shared (parallel_region d init subranges sched))
           (init # concat (map node_values subranges))"
proof -
  let ?gvs = "map (\<lambda>nodes. (on_subrange d init nodes, node_values nodes)) subranges"
  have "\<forall>gv \<in> set ?gvs. best d (fst gv) (init # snd gv)"
    by (auto simp: best_on_subrange)
  moreover have "best d (shared (parallel_region d init subranges sched)) (init # map fst ?gvs)"
    using parallel_region_best [OF assms] by (simp add: comp_def)
  ultimately have "best d (shared (parallel_region d init subranges sched))
     (init # concat (map snd ?gvs))"
    by (rule best_concat)
  then show ?thesis
    by (simp add: comp_def)
qed

lemma mpi_reduce_best: "gs \<noteq> [] \<Longrightarrow> \<exists>m. mpi_reduce d gs = Some m \<and> best d m gs"
  by (cases gs) (simp_all add: best_foldl)

lemma global_reduce_best:
  assumes ranks: "procs \<noteq> []" and fin: "all_regions_finished d init procs"
  shows "\<exists>m. global_reduce d init procs = Some m \<and> best d m (init # all_node_values procs)"
proof -
  let ?held = "\<lambda>(subranges, sched). shared (parallel_region d init subranges sched)"
  let ?vals = "\<lambda>(subranges, sched). concat (map node_values subranges)"
  let ?gvs = "map (\<lambda>pr. (?held pr, ?vals pr)) procs"
  have gs: "map fst ?gvs = map ?held procs"
    by (simp add: comp_def)
  obtain m where m: "mpi_reduce d (map ?held procs) = Some m" "best d m (map ?held procs)"
    using mpi_reduce_best [of "map ?held procs" d] ranks by auto
  have each: "\<forall>gv \<in> set ?gvs. best d (fst gv) (init # snd gv)"
    using fin by (auto simp: all_regions_finished_def list_all_iff intro: process_best)
  obtain pr where pr: "pr \<in> set procs"
    using ranks by (cases procs) auto
  then have "best d (?held pr) (init # ?vals pr)"
    using each by auto
  then have "dle d init (?held pr)"
    by (simp add: best_def)
  moreover have "dle d (?held pr) m"
    using m(2) pr by (simp add: best_def)
  ultimately have "dle d init m"
    by (rule dle_trans)
  then have "best d m (init # map fst ?gvs)"
    using m(2) unfolding gs by (auto simp: best_def)
  with each have "best d m (init # concat (map snd ?gvs))"
    by (rule best_concat)
  moreover have "concat (map snd ?gvs) = all_node_values procs"
    by (simp add: all_node_values_def comp_def)
  ultimately show ?thesis
    using m(1) by (simp add: global_reduce_def)
qed

lemma best_without_init:
  assumes "best d m (init # vals)" "vals \<noteq> []" "\<forall>v \<in> set vals. dle d init v"
  shows "best d m vals"
proof (cases "m \<in> set vals")
  case True
  then show ?thesis using assms(1) by (simp add: best_def)
next
  case False
  then have m: "m = init" using assms(1) by (simp add: best_def)
  obtain v where v: "v \<in> set vals" using assms(2) by (cases vals) auto
  then have "dle d v init" "dle d init v"
    using assms(1,3) m by (auto simp: best_def)
  then have "v = init" by (rule dle_antisym)
  then show ?thesis using v m False by simp
qed

lemma best_extremum: "best d m vals \<Longrightarrow> m = extremum d (set vals)"
  by (cases d) (auto simp: best_def intro: Max_eqI [symmetric] Min_eqI [symmetric])

lemma combine_assoc: "combine d (combine d x y) z = combine d x (combine d y z)"
  by (cases d) (simp_all add: max.assoc min.assoc)

lemma combine_commute: "combine d x y = combine d y x"
  by (cases d) (simp_all add: max.commute min.commute)

lemma global_reduce_extremum:
  fixes procs :: "ext_number process list"
  assumes "procs \<noteq> []" "all_regions_finished d (initial d) procs" "all_node_values procs \<noteq> []"
    and "d = Upper \<longrightarrow> (\<forall>v \<in> set (all_node_values procs). Finite 0 \<le> v)"
  shows "global_reduce d (initial d) procs = Some (extremum d (set (all_node_values procs)))"
proof -
  obtain m where m: "global_reduce d (initial d) procs = Some m"
    "best d m (initial d # all_node_values procs)"
    using global_reduce_best [OF assms(1,2)] by blast
  have "\<forall>v \<in> set (all_node_values procs). dle d (initial d) v"
    using assms(4) by (cases d) auto
  with m(2) assms(3) have "best d m (all_node_values procs)"
    by (rule best_without_init)
  then show ?thesis
    using m(1) by (simp add: best_extremum)
qed

text \<open>Every partition has a run in which all threads leave their loops.\<close>

lemma two_actions_finish:
  "sched_step d (length fs, False) (sched_step d (length fs, False)
     \<lparr>shared = s, workers = fs @ AtLoad y # rest\<rparr>) =
   \<lparr>shared = (if improves d s y then y else s), workers = fs @ Finished y # rest\<rparr>"
  by simp

lemma sequential_schedule_finishes:
  "list_all is_finished fs \<Longrightarrow>
   all_finished (run d (sequential_schedule (length fs) (length ys))
     \<lparr>shared = s, workers = fs @ map AtLoad ys\<rparr>)"
proof (induction ys arbitrary: fs s)
  case Nil
  then show ?case by (simp add: all_finished_def)
next
  case (Cons y ys)
  let ?s = "if improves d s y then y else s"
  have "list_all is_finished (fs @ [Finished y])"
    using Cons.prems by simp
  then have "all_finished (run d (sequential_schedule (length (fs @ [Finished y])) (length ys))
     \<lparr>shared = ?s, workers = (fs @ [Finished y]) @ map AtLoad ys\<rparr>)"
    by (rule Cons.IH)
  then show ?case
    using two_actions_finish [of d fs s y "map AtLoad ys"]
    by (simp del: sched_step.simps)
qed

lemma every_partition_has_a_complete_run:
  "all_finished (parallel_region d init subranges (sequential_schedule 0 (length subranges)))"
  using sequential_schedule_finishes [of "[]" d "map (on_subrange d init) subranges" init]
  by (simp add: parallel_region_def comp_def)

text \<open>
  Claim C8.  The combining operations are associative and commutative.  Whatever the
  partition of the nodes into processes and threads, and whatever the interleaving of the
  compare-and-swap loops (spurious failures included), once every thread of every process
  has left its loop the collective over the processes holds the maximum (for the lower
  bounds: the minimum) of all node values; two such runs over the same multiset of node
  values therefore agree.  The maxima start from \<open>0\<close>, so their node values are taken to be
  non-negative, as the norms the postprocessor reduces are; there is at least one node
  value and at least one process.
\<close>

theorem reduction_independent_of_partition_and_order:
  fixes procs procs' :: "ext_number process list"
  assumes "procs \<noteq> []" and "procs' \<noteq> []"
    and "all_regions_finished d (initial d) procs" and "all_regions_finished d (initial d) procs'"
    and "mset (all_node_values procs') = mset (all_node_values procs)"
    and "all_node_values procs \<noteq> []"
    and "d = Upper \<longrightarrow> (\<forall>v \<in> set (all_node_values procs). Finite 0 \<le> v)"
  shows "global_reduce d (initial d) procs = Some (extremum d (set (all_node_values procs))) \<and>
         global_reduce d (initial d) procs' = global_reduce d (initial d) procs \<and>
         (\<forall>x y z :: ext_number. combine d (combine d x y) z = combine d x (combine d y z) \<and>
            combine d x y = combine d y x)"
proof -
  have same: "set (all_node_values procs') = set (all_node_values procs)"
    using assms(5) by (rule mset_eq_setD)
  then have "all_node_values procs' \<noteq> []"
    using assms(6) by auto
  moreover have "d = Upper \<longrightarrow> (\<forall>v \<in> set (all_node_values procs'). Finite 0 \<le> v)"
    using assms(7) same by simp
  ultimately have "global_reduce d (initial d) procs' =
      Some (extremum d (set (all_node_values procs')))"
    using assms(2,4) by (intro global_reduce_extremum)
  moreover have A: "global_reduce d (initial d) procs =
      Some (extremum d (set (all_node_values procs)))"
    using assms(1,3,6,7) by (intro global_reduce_extremum)
  ultimately have B: "global_reduce d (initial d) procs' = global_reduce d (initial d) procs"
    using same by simp
  have C: "\<forall>x y z :: ext_number. combine d (combine d x y) z = combine d x (combine d y z) \<and>
            combine d x y = combine d y x"
    by (intro allI conjI combine_assoc combine_commute)
  show ?thesis
    by (rule conjI [OF A conjI [OF B C]])
qed


theorem reduction_independent_of_partition_and_order_witness:
  "global_reduce Upper (Finite 0)
     [([[(3, Finite 1), (1, Finite 9), (2, Finite 5)], [(4, Finite 2)]],
       [(0, False), (1, False), (1, True), (0, False), (1, False), (1, False)]),
      ([[(2, Finite 3)]], [(0, False), (0, False)])] = Some (Finite 5) \<and>
   global_reduce Upper (Finite 0)
     [([[(2, Finite 3), (2, Finite 2)], [(2, Finite 5), (2, Finite 1)]],
       [(1, False), (1, False), (0, False), (0, False)])] = Some (Finite 5) \<and>
   global_reduce Lower Infinity
     [([[(3, Finite 1), (1, Finite 9), (2, Finite 5)], [(4, Finite 2)]],
       [(0, False), (1, False), (1, True), (0, False), (1, False), (1, False)]),
      ([[(2, Finite 3)]], [(0, False), (0, False)])] = Some (Finite 1) \<and>
   global_reduce Lower Infinity
     [([[(2, Finite 3), (2, Finite 2)], [(2, Finite 5), (2, Finite 1)]],
       [(1, False), (1, False), (0, False), (0, False)])] = Some (Finite 1)"
proof -
  let ?procs = "[([[(3, Finite 1), (1, Finite 9), (2, Finite 5)], [(4, Finite 2)]],
       [(0, False), (1, False), (1, True), (0, False), (1, False), (1, False)]),
      ([[(2, Finite 3)]], [(0, False), (0, False)])] :: ext_number process list"
  let ?procs' = "[([[(2, Finite 3), (2, Finite 2)], [(2, Finite 5), (2, Finite 1)]],
       [(1, False), (1, False), (0, False), (0, False)])] :: ext_number process list"
  have 1: "?procs \<noteq> []" "?procs' \<noteq> []"
    by simp_all
  have 2: "all_regions_finished Upper (initial Upper) ?procs"
    "all_regions_finished Upper (initial Upper) ?procs'"
    by (simp_all add: all_regions_finished_def parallel_region_def all_finished_def)
  have 3: "all_regions_finished Lower (initial Lower) ?procs"
    "all_regions_finished Lower (initial Lower) ?procs'"
    by (simp_all add: all_regions_finished_def parallel_region_def all_finished_def)
  have 4: "mset (all_node_values ?procs') = mset (all_node_values ?procs)"
    by (simp add: all_node_values_def)
  have 5: "all_node_values ?procs \<noteq> []"
    by (simp add: all_node_values_def)
  have 6: "Upper = Upper \<longrightarrow> (\<forall>v \<in> set (all_node_values ?procs). Finite 0 \<le> v)"
    "Lower = Upper \<longrightarrow> (\<forall>v \<in> set (all_node_values ?procs). Finite 0 \<le> v)"
    by (simp_all add: all_node_values_def)
  have 7: "extremum Upper (set (all_node_values ?procs)) = Finite 5"
    "extremum Lower (set (all_node_values ?procs)) = Finite 1"
    by (simp_all add: all_node_values_def)
  show ?thesis
    using reduction_independent_of_partition_and_order [OF 1 2 4 5 6(1)]
      reduction_independent_of_partition_and_order [OF 1 3 4 5 6(2)] 7
    by simp
qed

end
